theory Spec2Isabelle
  imports Complex_Main
begin

section \<open>Shared data model (core/types.ts)\<close>

text \<open>
  Numbers of the source are JavaScript doubles; the model takes them as reals, so that
  every statement below is about the exact arithmetic the code approximates.
\<close>

type_synonym Point2D = "real \<times> real"
type_synonym Point3D = "real \<times> real \<times> real"

text \<open>\<^verbatim>\<open>export type ExtrudeDirection = 'normal' | 'both' | 'symmetric'\<close>\<close>

datatype ExtrudeDirection = Normal | Both | Symmetric

section \<open>CADEdge: the closed flag (Solid module, class CADEdge)\<close>

text \<open>
  The constructor leaves \<open>closedLoop\<close> at its initial value \<open>false\<close> unless the polyline
  has at least two points; then it compares the first and the last point coordinate by
  coordinate against the tolerance \<open>1e-9\<close>.
\<close>

definition tolerance :: real where
  "tolerance = 1 / 10 ^ 9"

definition closedLoop :: "Point3D list \<Rightarrow> bool" where
  "closedLoop positions =
     (if length positions \<ge> 2 then
        (let first = positions ! 0;
             last = positions ! (length positions - 1)
         in \<bar>fst first - fst last\<bar> < tolerance \<and>
            \<bar>fst (snd first) - fst (snd last)\<bar> < tolerance \<and>
            \<bar>snd (snd first) - snd (snd last)\<bar> < tolerance)
      else False)"

text \<open>The Euclidean distance of two points.\<close>

definition euclidDistance :: "Point3D \<Rightarrow> Point3D \<Rightarrow> real" where
  "euclidDistance p q =
     sqrt ((fst p - fst q)\<^sup>2 + (fst (snd p) - fst (snd q))\<^sup>2 + (snd (snd p) - snd (snd q))\<^sup>2)"

section \<open>Extrude: height and offset per direction mode (GeometryComputer.computeExtrude)\<close>

text \<open>
  The body of the per-profile loop starts from \<open>height = distance\<close>, \<open>offsetZ = 0\<close> and
  overrides both for \<open>'both'\<close> and \<open>'symmetric'\<close>.
\<close>

definition heightAndOffset :: "ExtrudeDirection \<Rightarrow> real \<Rightarrow> real \<times> real" where
  "heightAndOffset direction distance =
     (if direction = Both then (distance * 2, - distance)
      else if direction = Symmetric then (distance, - distance / 2)
      else (distance, 0))"

section \<open>Node graph (core/types.ts)\<close>

datatype PrimitiveType = Box | Sphere | Cylinder | Cone | Torus

datatype BooleanOperation = Union | Difference | Intersection

text \<open>
  Node types of \<open>CADNodeType\<close> that \<open>compute\<close> sends to its \<open>default\<close> branch, apart
  from \<open>'sketch'\<close>, which has a constructor of its own below.
\<close>

datatype OtherType = Sweep | Loft | Group | Import

text \<open>
  \<open>ExtrudeParams\<close> and \<open>RevolveParams\<close>. \<open>booleanOp\<close> is \<open>BooleanOperation | 'new'\<close>:
  \<open>None\<close> stands for \<open>'new'\<close>. \<open>targetBodyId\<close> is \<open>string | null\<close>.
\<close>

record ExtrudeParams =
  sketchId :: string
  distance :: real
  direction :: ExtrudeDirection
  draftAngle :: real
  booleanOp :: "BooleanOperation option"
  targetBodyId :: "string option"

record RevolveParams =
  revSketchId :: string
  axisEntityId :: string
  angle :: real
  revBooleanOp :: "BooleanOperation option"
  revTargetBodyId :: "string option"

text \<open>
  The union \<open>CADNode\<close>, with the fields the geometry pipeline reads: a primitive's
  numeric parameters, a boolean's \<open>operandIds\<close>, a sketch's closed \<open>profiles\<close>, and the
  parameters of an extrude or a revolve.
\<close>

datatype CADNode =
    Primitive PrimitiveType "real list"
  | Boolean BooleanOperation "string list"
  | Sketch "Point2D list list"
  | Extrude ExtrudeParams
  | Revolve RevolveParams
  | Other OtherType

text \<open>\<open>doc.nodes\<close> is a JavaScript \<open>Map\<close>: keys in insertion order.\<close>

type_synonym Nodes = "(string \<times> CADNode) list"

fun typeName :: "CADNode \<Rightarrow> string" where
  "typeName (Primitive Box _) = ''box''"
| "typeName (Primitive Sphere _) = ''sphere''"
| "typeName (Primitive Cylinder _) = ''cylinder''"
| "typeName (Primitive Cone _) = ''cone''"
| "typeName (Primitive Torus _) = ''torus''"
| "typeName (Boolean Union _) = ''union''"
| "typeName (Boolean Difference _) = ''difference''"
| "typeName (Boolean Intersection _) = ''intersection''"
| "typeName (Sketch _) = ''sketch''"
| "typeName (Extrude _) = ''extrude''"
| "typeName (Revolve _) = ''revolve''"
| "typeName (Other Sweep) = ''sweep''"
| "typeName (Other Loft) = ''loft''"
| "typeName (Other Group) = ''group''"
| "typeName (Other Import) = ''import''"

section \<open>Computed geometry and the kernel interface\<close>

record MeshData =
  vertices :: "real list"
  indices :: "nat list"
  normals :: "real list"

text \<open>The render geometry holds the position, normal and index attributes.\<close>

datatype BufferGeometry = BufferGeometry "real list" "real list" "nat list"

record Topology =
  topoVertices :: "Point3D list"
  topoEdges :: "(string \<times> real) list"
  topoFaces :: "(string \<times> real) list"

type_synonym BoundingBox3D = "Point3D \<times> Point3D"

text \<open>\<open>ComputedGeometry\<close>, the cache entry; \<open>'m\<close> is the kernel's solid handle.\<close>

record 'm ComputedGeometry =
  manifold :: "'m option"
  threeGeometry :: "BufferGeometry option"
  meshData :: "MeshData option"
  topology :: "Topology option"
  bounds :: "BoundingBox3D option"
  dirty :: bool
  error :: "string option"

text \<open>
  The operations of \<open>ManifoldEngine\<close> and of the Solid module that the geometry
  computer calls. Those that return a \<open>Result\<close> never throw (each has its own
  \<open>try/catch\<close>): \<open>Inl\<close> is \<open>{success: false, error}\<close>. \<open>buildSolid\<close> stands for the
  construction of a primitive's Solid and of its manifold (\<open>new BoxSolid(...)\<close>,
  \<open>solid.getManifold()\<close>), \<open>bufferGeometry\<close> for the construction of the render geometry
  and \<open>solidTopology\<close> for the topology summary read off the Solid's faces, edges and
  vertices; these three are plain calls that may throw, and \<open>Inl\<close> is then the
  exception's text.
\<close>

record 'm Kernel =
  engineInit :: "string + unit"
  moduleReady :: bool
  buildSolid :: "CADNode \<Rightarrow> string + 'm"
  solidTopology :: "CADNode \<Rightarrow> string + Topology"
  extractMesh :: "'m \<Rightarrow> string + MeshData"
  bufferGeometry :: "MeshData \<Rightarrow> string + BufferGeometry"
  extractTopology :: "'m \<Rightarrow> string + Topology"
  getBoundingBox :: "'m \<Rightarrow> string + BoundingBox3D"
  union :: "'m \<Rightarrow> 'm \<Rightarrow> string + 'm"
  difference :: "'m \<Rightarrow> 'm \<Rightarrow> string + 'm"
  intersection :: "'m \<Rightarrow> 'm \<Rightarrow> string + 'm"
  extrude :: "Point2D list \<Rightarrow> real \<Rightarrow> string + 'm"
  revolve :: "Point2D list \<Rightarrow> real \<Rightarrow> string + 'm"
  translate :: "'m \<Rightarrow> Point3D \<Rightarrow> string + 'm"

text \<open>\<open>ManifoldEngine.boolean\<close>: dispatch by operation name.\<close>

definition boolean :: "'m Kernel \<Rightarrow> 'm \<Rightarrow> 'm \<Rightarrow> BooleanOperation \<Rightarrow> string + 'm" where
  "boolean k a b operation =
     (case operation of
        Union \<Rightarrow> union k a b
      | Difference \<Rightarrow> difference k a b
      | Intersection \<Rightarrow> intersection k a b)"

section \<open>GeometryComputer\<close>

text \<open>
  The state the class works on: its own \<open>initialized\<close> flag and \<open>computing\<close> set, and
  the geometry cache store.
\<close>

record 'm State =
  initialized :: bool
  computing :: "string set"
  cache :: "string \<rightharpoonup> 'm ComputedGeometry"

text \<open>\<open>Result<ComputedGeometry>\<close>: \<open>Inl\<close> is \<open>{success: false, error}\<close>.\<close>

type_synonym 'm Result = "string + 'm ComputedGeometry"

text \<open>
  What a \<open>computeX\<close> method hands back to \<open>compute\<close>: a geometry, or (\<open>Inl\<close>) an
  exception that \<open>compute\<close> catches.
\<close>

type_synonym 'm Outcome = "string + 'm ComputedGeometry"

definition createEmptyGeometry :: "string \<Rightarrow> 'm ComputedGeometry" where
  "createEmptyGeometry err =
     \<lparr>manifold = None, threeGeometry = None, meshData = None, topology = None,
      bounds = None, dirty = False, error = Some err\<rparr>"

definition manifoldToGeometry :: "'m Kernel \<Rightarrow> 'm \<Rightarrow> 'm Outcome" where
  "manifoldToGeometry k solid =
     (case extractMesh k solid of
        Inl e \<Rightarrow> Inr (createEmptyGeometry e)
      | Inr mesh \<Rightarrow>
          (case bufferGeometry k mesh of
             Inl ex \<Rightarrow> Inl ex
           | Inr three \<Rightarrow>
               Inr \<lparr>manifold = Some solid, threeGeometry = Some three, meshData = Some mesh,
                    topology = (case extractTopology k solid of Inl _ \<Rightarrow> None | Inr t \<Rightarrow> Some t),
                    bounds = (case getBoundingBox k solid of Inl _ \<Rightarrow> None | Inr b \<Rightarrow> Some b),
                    dirty = False, error = None\<rparr>))"

text \<open>
  \<open>computePrimitive\<close>: everything after the readiness check sits in one \<open>try\<close>, whose
  \<open>catch\<close> turns an exception into an empty geometry.
\<close>

definition computePrimitive :: "'m Kernel \<Rightarrow> CADNode \<Rightarrow> 'm ComputedGeometry" where
  "computePrimitive k node =
     (if \<not> moduleReady k then createEmptyGeometry ''Solid module not initialized''
      else
        (case buildSolid k node of
           Inl ex \<Rightarrow> createEmptyGeometry (''Primitive creation failed: '' @ ex)
         | Inr solid \<Rightarrow>
             (case extractMesh k solid of
                Inl e \<Rightarrow> createEmptyGeometry e
              | Inr mesh \<Rightarrow>
                  (case bufferGeometry k mesh of
                     Inl ex \<Rightarrow> createEmptyGeometry (''Primitive creation failed: '' @ ex)
                   | Inr three \<Rightarrow>
                       (case solidTopology k node of
                          Inl ex \<Rightarrow> createEmptyGeometry (''Primitive creation failed: '' @ ex)
                        | Inr topo \<Rightarrow>
                            \<lparr>manifold = Some solid, threeGeometry = Some three,
                             meshData = Some mesh, topology = Some topo,
                             bounds = (case getBoundingBox k solid of
                                         Inl _ \<Rightarrow> None | Inr b \<Rightarrow> Some b),
                             dirty = False, error = None\<rparr>)))))"

text \<open>
  A recursive call of \<open>compute\<close>, as the methods below receive it. \<open>None\<close> is a call that
  has not returned within the recursion depth allowed.
\<close>

type_synonym 'm Rec = "'m State \<Rightarrow> string \<Rightarrow> ('m State \<times> 'm Result) option"

text \<open>
  \<open>computeBoolean\<close>, first loop: compute the operands in list order and stop at the first
  one that fails (\<open>!result.success || !result.value.manifold\<close>); \<open>Inl\<close> is that operand's id.
\<close>

fun computeOperands ::
  "'m Rec \<Rightarrow> 'm State \<Rightarrow> string list \<Rightarrow> 'm ComputedGeometry list
     \<Rightarrow> ('m State \<times> (string + 'm ComputedGeometry list)) option" where
  "computeOperands rec st [] operandGeometries = Some (st, Inr operandGeometries)"
| "computeOperands rec st (operandId # rest) operandGeometries =
     (case rec st operandId of
        None \<Rightarrow> None
      | Some (st', Inl _) \<Rightarrow> Some (st', Inl operandId)
      | Some (st', Inr val) \<Rightarrow>
          (if manifold val = None then Some (st', Inl operandId)
           else computeOperands rec st' rest (operandGeometries @ [val])))"

text \<open>\<open>computeBoolean\<close>, second loop: the left fold of the operation.\<close>

fun booleanFold :: "'m Kernel \<Rightarrow> BooleanOperation \<Rightarrow> 'm \<Rightarrow> 'm list \<Rightarrow> string + 'm" where
  "booleanFold k operation result [] = Inr result"
| "booleanFold k operation result (operand # rest) =
     (case boolean k result operand operation of
        Inl e \<Rightarrow> Inl e
      | Inr v \<Rightarrow> booleanFold k operation v rest)"

definition computeBoolean ::
  "'m Rec \<Rightarrow> 'm Kernel \<Rightarrow> 'm State \<Rightarrow> BooleanOperation \<Rightarrow> string list
     \<Rightarrow> ('m State \<times> 'm Outcome) option" where
  "computeBoolean rec k st operation operandIds =
     (if length operandIds < 2 then
        Some (st, Inr (createEmptyGeometry ''Boolean requires at least 2 operands''))
      else
        (case computeOperands rec st operandIds [] of
           None \<Rightarrow> None
         | Some (st', Inl operandId) \<Rightarrow>
             Some (st', Inr (createEmptyGeometry (''Failed to compute operand: '' @ operandId)))
         | Some (st', Inr operandGeometries) \<Rightarrow>
             (case booleanFold k operation (the (manifold (hd operandGeometries)))
                     (map (\<lambda>g. the (manifold g)) (tl operandGeometries)) of
                Inl e \<Rightarrow> Some (st', Inr (createEmptyGeometry e))
              | Inr result \<Rightarrow> Some (st', manifoldToGeometry k result))))"

text \<open>
  \<open>computeExtrude\<close>, the per-profile loop: a profile whose extrusion fails adds nothing,
  and a failed translation keeps the untranslated solid.
\<close>

fun extrudeProfiles ::
  "'m Kernel \<Rightarrow> real \<Rightarrow> ExtrudeDirection \<Rightarrow> Point2D list list \<Rightarrow> 'm list \<Rightarrow> 'm list" where
  "extrudeProfiles k dst dir [] extrusionResults = extrusionResults"
| "extrudeProfiles k dst dir (profile # rest) extrusionResults =
     (let (height, offsetZ) = heightAndOffset dir dst in
        (case extrude k profile height of
           Inl _ \<Rightarrow> extrudeProfiles k dst dir rest extrusionResults
         | Inr solid \<Rightarrow>
             extrudeProfiles k dst dir rest
               (extrusionResults @
                  [if offsetZ \<noteq> 0 then
                     (case translate k solid (0, 0, offsetZ) of Inl _ \<Rightarrow> solid | Inr v \<Rightarrow> v)
                   else solid])))"

text \<open>The union loop of \<open>computeExtrude\<close> and \<open>computeRevolve\<close>: a failed union is skipped.\<close>

fun unionAll :: "'m Kernel \<Rightarrow> 'm \<Rightarrow> 'm list \<Rightarrow> 'm" where
  "unionAll k result [] = result"
| "unionAll k result (next # rest) =
     (case union k result next of
        Inl _ \<Rightarrow> unionAll k result rest
      | Inr v \<Rightarrow> unionAll k v rest)"

text \<open>The boolean of an extrusion with its target body: any failure keeps the extrusion.\<close>

definition applyTarget :: "'m Kernel \<Rightarrow> BooleanOperation \<Rightarrow> 'm Result \<Rightarrow> 'm \<Rightarrow> 'm" where
  "applyTarget k operation targetResult result =
     (case targetResult of
        Inl _ \<Rightarrow> result
      | Inr val \<Rightarrow>
          (case manifold val of
             None \<Rightarrow> result
           | Some target \<Rightarrow>
               (case boolean k target result operation of Inl _ \<Rightarrow> result | Inr v \<Rightarrow> v)))"

text \<open>
  The sketch lookup of \<open>computeExtrude\<close> and \<open>computeRevolve\<close>: the node must exist
  and be a sketch (\<open>!sketch || sketch.type !== 'sketch'\<close>); \<open>None\<close> is "Sketch not found".
\<close>

definition getSketch :: "Nodes \<Rightarrow> string \<Rightarrow> Point2D list list option" where
  "getSketch nodes sid =
     (case map_of nodes sid of
        Some (Sketch profiles) \<Rightarrow> Some profiles
      | _ \<Rightarrow> None)"

text \<open>
  The last step of \<open>computeExtrude\<close>: with a boolean operation other than \<open>'new'\<close> and a
  non-empty target body id, the target is computed and combined with the extrusion.
\<close>

definition handleTarget ::
  "'m Rec \<Rightarrow> 'm Kernel \<Rightarrow> 'm State \<Rightarrow> ExtrudeParams \<Rightarrow> 'm \<Rightarrow> ('m State \<times> 'm Outcome) option" where
  "handleTarget rec k st params result =
     (case (booleanOp params, targetBodyId params) of
        (Some operation, Some target) \<Rightarrow>
          (if target = [] then Some (st, manifoldToGeometry k result)
           else
             (case rec st target of
                None \<Rightarrow> None
              | Some (st', targetResult) \<Rightarrow>
                  Some (st', manifoldToGeometry k (applyTarget k operation targetResult result))))
      | _ \<Rightarrow> Some (st, manifoldToGeometry k result))"

definition computeExtrude ::
  "'m Rec \<Rightarrow> 'm Kernel \<Rightarrow> Nodes \<Rightarrow> 'm State \<Rightarrow> ExtrudeParams \<Rightarrow> ('m State \<times> 'm Outcome) option" where
  "computeExtrude rec k nodes st params =
     (case getSketch nodes (sketchId params) of
        None \<Rightarrow> Some (st, Inr (createEmptyGeometry ''Sketch not found''))
      | Some profiles \<Rightarrow>
          (if profiles = [] then Some (st, Inr (createEmptyGeometry ''No closed profiles in sketch''))
           else
             (let extrusionResults =
                    extrudeProfiles k (distance params) (direction params) profiles []
              in if extrusionResults = [] then Some (st, Inr (createEmptyGeometry ''Extrusion failed''))
                 else handleTarget rec k st params
                        (unionAll k (hd extrusionResults) (tl extrusionResults)))))"

text \<open>\<open>computeRevolve\<close>, the per-profile loop: a profile whose revolution fails adds nothing.\<close>

fun revolveProfiles :: "'m Kernel \<Rightarrow> real \<Rightarrow> Point2D list list \<Rightarrow> 'm list \<Rightarrow> 'm list" where
  "revolveProfiles k ang [] revolutionResults = revolutionResults"
| "revolveProfiles k ang (profile # rest) revolutionResults =
     (case revolve k profile ang of
        Inl _ \<Rightarrow> revolveProfiles k ang rest revolutionResults
      | Inr v \<Rightarrow> revolveProfiles k ang rest (revolutionResults @ [v]))"

definition computeRevolve :: "'m Kernel \<Rightarrow> Nodes \<Rightarrow> RevolveParams \<Rightarrow> 'm Outcome" where
  "computeRevolve k nodes params =
     (case getSketch nodes (revSketchId params) of
        None \<Rightarrow> Inr (createEmptyGeometry ''Sketch not found'')
      | Some profiles \<Rightarrow>
          (if profiles = [] then Inr (createEmptyGeometry ''No closed profiles in sketch'')
           else
             (let revolutionResults = revolveProfiles k (angle params) profiles []
              in if revolutionResults = [] then Inr (createEmptyGeometry ''Revolution failed'')
                 else manifoldToGeometry k
                        (unionAll k (hd revolutionResults) (tl revolutionResults)))))"

text \<open>The \<open>switch\<close> of \<open>compute\<close> on the node type.\<close>

definition dispatch ::
  "'m Rec \<Rightarrow> 'm Kernel \<Rightarrow> Nodes \<Rightarrow> 'm State \<Rightarrow> CADNode \<Rightarrow> ('m State \<times> 'm Outcome) option" where
  "dispatch rec k nodes st node =
     (case node of
        Primitive _ _ \<Rightarrow> Some (st, Inr (computePrimitive k node))
      | Boolean operation operandIds \<Rightarrow> computeBoolean rec k st operation operandIds
      | Extrude params \<Rightarrow> computeExtrude rec k nodes st params
      | Revolve params \<Rightarrow> Some (st, computeRevolve k nodes params)
      | _ \<Rightarrow> Some (st, Inr (createEmptyGeometry (''Unsupported node type: '' @ typeName node))))"

text \<open>
  The end of \<open>compute\<close>: the \<open>try\<close> block stores the geometry and returns it; the \<open>catch\<close>
  block stores an empty geometry and returns the error; \<open>finally\<close> removes the node from
  \<open>computing\<close>.
\<close>

definition finish :: "string \<Rightarrow> 'm State \<Rightarrow> 'm Outcome \<Rightarrow> 'm State \<times> 'm Result" where
  "finish nodeId st outcome =
     (case outcome of
        Inr geometry \<Rightarrow>
          (st\<lparr>cache := (cache st)(nodeId \<mapsto> geometry), computing := computing st - {nodeId}\<rparr>,
           Inr geometry)
      | Inl ex \<Rightarrow>
          (st\<lparr>cache := (cache st)(nodeId \<mapsto> createEmptyGeometry (''Computation error: '' @ ex)),
              computing := computing st - {nodeId}\<rparr>,
           Inl ex))"

text \<open>
  \<open>initialize\<close>: nothing to do when already initialized; otherwise the engine is
  initialized, and only if that succeeds the flag is set.
\<close>

definition initialize :: "'m Kernel \<Rightarrow> 'm State \<Rightarrow> string + 'm State" where
  "initialize k st =
     (if initialized st then Inr st
      else (case engineInit k of Inl e \<Rightarrow> Inl e | Inr _ \<Rightarrow> Inr (st\<lparr>initialized := True\<rparr>)))"

text \<open>A cache hit: an entry that is present and not dirty.\<close>

definition cacheHit :: "'m State \<Rightarrow> string \<Rightarrow> 'm ComputedGeometry option" where
  "cacheHit st nodeId =
     (case cache st nodeId of
        None \<Rightarrow> None
      | Some cached \<Rightarrow> if \<not> dirty cached then Some cached else None)"

text \<open>
  \<open>compute\<close>. The first argument bounds the depth of the recursion through operands and
  target bodies; \<open>None\<close> means that the bound was reached. Theorem \<open>compute_returns\<close> below
  shows that a bound above the number of nodes not yet being computed is always enough,
  and \<open>compute_fuel_independent\<close> that the result is the same for every bound that is.
  Calls run one after the other: a call that starts while another is suspended finds that
  other call's node in \<open>computing\<close>.
\<close>

primrec compute ::
  "nat \<Rightarrow> 'm Kernel \<Rightarrow> Nodes \<Rightarrow> 'm State \<Rightarrow> string \<Rightarrow> ('m State \<times> 'm Result) option" where
  "compute 0 k nodes st nodeId = None"
| "compute (Suc n) k nodes st nodeId =
     (case (if \<not> initialized st then initialize k st else Inr st) of
        Inl e \<Rightarrow> Some (st, Inl e)
      | Inr st1 \<Rightarrow>
          (if nodeId \<in> computing st1 then Some (st1, Inl ''Already computing this node'')
           else
             (case map_of nodes nodeId of
                None \<Rightarrow> Some (st1, Inl (''Node not found: '' @ nodeId))
              | Some node \<Rightarrow>
                  (case cacheHit st1 nodeId of
                     Some cached \<Rightarrow> Some (st1, Inr cached)
                   | None \<Rightarrow>
                       (case dispatch (compute n k nodes) k nodes
                               (st1\<lparr>computing := insert nodeId (computing st1)\<rparr>) node of
                          None \<Rightarrow> None
                        | Some (st2, outcome) \<Rightarrow> Some (finish nodeId st2 outcome))))))"

section \<open>Shapes of a cache entry\<close>

text \<open>
  The two shapes a stored entry can have. A success entry has no error and carries the
  solid with its render buffers; a failure entry carries the message and nothing else.
  Both are stored with \<open>dirty = false\<close>.
\<close>

definition successEntry :: "'m ComputedGeometry \<Rightarrow> bool" where
  "successEntry g \<longleftrightarrow>
     error g = None \<and> dirty g = False \<and>
     manifold g \<noteq> None \<and> threeGeometry g \<noteq> None \<and> meshData g \<noteq> None"

definition failureEntry :: "'m ComputedGeometry \<Rightarrow> bool" where
  "failureEntry g \<longleftrightarrow>
     error g \<noteq> None \<and> dirty g = False \<and>
     manifold g = None \<and> threeGeometry g = None \<and> meshData g = None \<and>
     topology g = None \<and> bounds g = None"

text \<open>An operand of a boolean fails when \<open>!result.success || !result.value.manifold\<close>.\<close>

definition operandFailed :: "'m Result \<Rightarrow> bool" where
  "operandFailed result = (case result of Inl _ \<Rightarrow> True | Inr val \<Rightarrow> manifold val = None)"

section \<open>A reference kernel for concrete runs\<close>

text \<open>
  Modelled from the spec: the CSG kernel is an external library and only its interface
  is used above. This kernel keeps of every solid its extent along the extrusion
  axis, as the pair of its lowest and highest coordinate: an extrusion to a height
  starts at the sketch plane (coordinate 0) and ends at the height, a translation
  shifts both ends, a union covers both operands, an intersection what they share, and
  a difference keeps the extent of the first operand. A profile with fewer than three
  points cannot be extruded.
\<close>

definition emptyTopology :: Topology where
  "emptyTopology = \<lparr>topoVertices = [], topoEdges = [], topoFaces = []\<rparr>"

definition emptyMesh :: MeshData where
  "emptyMesh = \<lparr>vertices = [], indices = [], normals = []\<rparr>"

definition spanKernel :: "(real \<times> real) Kernel" where
  "spanKernel =
     \<lparr>engineInit = Inr (),
      moduleReady = True,
      buildSolid = (\<lambda>node. Inr (0, 1)),
      solidTopology = (\<lambda>node. Inr emptyTopology),
      extractMesh = (\<lambda>m. Inr emptyMesh),
      bufferGeometry = (\<lambda>d. Inr (BufferGeometry (vertices d) (normals d) (indices d))),
      extractTopology = (\<lambda>m. Inr emptyTopology),
      getBoundingBox = (\<lambda>m. Inr ((0, 0, fst m), (0, 0, snd m))),
      union = (\<lambda>a b. Inr (min (fst a) (fst b), max (snd a) (snd b))),
      difference = (\<lambda>a b. Inr a),
      intersection = (\<lambda>a b. Inr (max (fst a) (fst b), min (snd a) (snd b))),
      extrude = (\<lambda>profile height.
                   if length profile < 3 then Inl ''Extrusion failed: degenerate profile''
                   else Inr (0, height)),
      revolve = (\<lambda>profile ang.
                   if length profile < 3 then Inl ''Revolution failed: degenerate profile''
                   else Inr (0, 1)),
      translate = (\<lambda>m offset. Inr (fst m + snd (snd offset), snd m + snd (snd offset)))\<rparr>"

text \<open>A square profile centred at the plane origin, and a degenerate one.\<close>

definition squareProfile :: "Point2D list" where
  "squareProfile = [(-1, -1), (1, -1), (1, 1), (-1, 1)]"

definition degenerateProfile :: "Point2D list" where
  "degenerateProfile = [(0, 0), (1, 0)]"

text \<open>The state before any computation, with the computer initialized.\<close>

definition readyState :: "'m State" where
  "readyState = \<lparr>initialized = True, computing = {}, cache = Map.empty\<rparr>"

text \<open>
  A small document: a box, a sketch with one good and one degenerate profile, a boolean
  with a single operand, a boolean whose second operand is the sketch itself, an
  extrusion of the sketch, and a boolean that lists itself as its first operand.
\<close>

definition padParams :: ExtrudeParams where
  "padParams = \<lparr>sketchId = ''sketch'', distance = 10, direction = Symmetric, draftAngle = 0,
                 booleanOp = None, targetBodyId = None\<rparr>"

definition exampleNodes :: Nodes where
  "exampleNodes =
     [(''box'', Primitive Box [20, 20, 20]),
      (''sketch'', Sketch [squareProfile, degenerateProfile]),
      (''single'', Boolean Union [''box'']),
      (''cut'', Boolean Difference [''box'', ''sketch'', ''pad'']),
      (''pad'', Extrude padParams),
      (''loop'', Boolean Union [''loop'', ''box''])]"

text \<open>The state in the middle of a computation of the node \<open>loop\<close>.\<close>

definition loopState :: "'m State" where
  "loopState = \<lparr>initialized = True, computing = {''loop''}, cache = Map.empty\<rparr>"

text \<open>
  A document with a boolean whose only operand is a sketch, a node type that \<open>compute\<close>
  does not support.
\<close>

definition soloNodes :: Nodes where
  "soloNodes =
     [(''sketch'', Sketch [squareProfile]),
      (''solo'', Boolean Union [''sketch''])]"

section \<open>The extent of an extrusion along its axis\<close>

text \<open>The lowest and the highest coordinate of a bounding box along the extrusion axis.\<close>

definition zRange :: "BoundingBox3D \<Rightarrow> real \<times> real" where
  "zRange box = (snd (snd (fst box)), snd (snd (snd box)))"

text \<open>
  The CSG kernel is an external library, and \<open>computeExtrude\<close> relies on two properties
  of it: the prism of an extrusion by a height that is not negative starts at the sketch
  plane and ends at the height, and a translation moves the bounding box by its offset.
\<close>

definition extrudesFromPlane :: "'m Kernel \<Rightarrow> bool" where
  "extrudesFromPlane k \<longleftrightarrow>
     (\<forall>profile height solid.
        0 \<le> height \<and> extrude k profile height = Inr solid \<longrightarrow>
          (\<exists>box. getBoundingBox k solid = Inr box \<and> zRange box = (0, height))) \<and>
     (\<forall>solid offset moved box.
        translate k solid offset = Inr moved \<and> getBoundingBox k solid = Inr box \<longrightarrow>
          (\<exists>box'. getBoundingBox k moved = Inr box' \<and>
                  zRange box' = (fst (zRange box) + snd (snd offset),
                                 snd (zRange box) + snd (snd offset))))"

text \<open>
  A document with two extrusions of the square profile by the distance 10, one
  \<open>'symmetric'\<close> and one \<open>'both'\<close>, and the geometry that the reference kernel gives for
  a prism between two coordinates.
\<close>

definition bothParams :: ExtrudeParams where
  "bothParams = \<lparr>sketchId = ''sketch'', distance = 10, direction = Both, draftAngle = 0,
                  booleanOp = None, targetBodyId = None\<rparr>"

definition prismGeometry :: "real \<Rightarrow> real \<Rightarrow> (real \<times> real) ComputedGeometry" where
  "prismGeometry lo hi =
     \<lparr>manifold = Some (lo, hi), threeGeometry = Some (BufferGeometry [] [] []),
      meshData = Some emptyMesh, topology = Some emptyTopology,
      bounds = Some ((0, 0, lo), (0, 0, hi)), dirty = False, error = None\<rparr>"

definition spanNodes :: Nodes where
  "spanNodes =
     [(''sketch'', Sketch [squareProfile]),
      (''symmetric'', Extrude padParams),
      (''both'', Extrude bothParams)]"

section \<open>Per-profile results, stated directly\<close>

text \<open>
  What one profile contributes to an extrusion: nothing when the kernel cannot extrude
  it; otherwise its prism, translated when the offset is not zero and the translation
  succeeds, and untranslated when the translation fails.
\<close>

definition prismOf :: "'m Kernel \<Rightarrow> real \<Rightarrow> ExtrudeDirection \<Rightarrow> Point2D list \<Rightarrow> 'm option" where
  "prismOf k dst dir profile =
     (case extrude k profile (fst (heightAndOffset dir dst)) of
        Inl _ \<Rightarrow> None
      | Inr solid \<Rightarrow>
          Some (if snd (heightAndOffset dir dst) = 0 then solid
                else (case translate k solid (0, 0, snd (heightAndOffset dir dst)) of
                        Inl _ \<Rightarrow> solid
                      | Inr v \<Rightarrow> v)))"

text \<open>What one profile contributes to a revolution.\<close>

definition revolutionOf :: "'m Kernel \<Rightarrow> real \<Rightarrow> Point2D list \<Rightarrow> 'm option" where
  "revolutionOf k ang profile = (case revolve k profile ang of Inl _ \<Rightarrow> None | Inr v \<Rightarrow> Some v)"

text \<open>A union that keeps the accumulator when the kernel fails.\<close>

definition tryUnion :: "'m Kernel \<Rightarrow> 'm \<Rightarrow> 'm \<Rightarrow> 'm" where
  "tryUnion k acc s = (case union k acc s of Inl _ \<Rightarrow> acc | Inr v \<Rightarrow> v)"

text \<open>The reference kernel with a translation that always fails.\<close>

definition noTranslateKernel :: "(real \<times> real) Kernel" where
  "noTranslateKernel = spanKernel\<lparr>translate := (\<lambda>m offset. Inl ''Translation failed'')\<rparr>"

text \<open>A revolution of the sketch of the example document.\<close>

definition spinParams :: RevolveParams where
  "spinParams = \<lparr>revSketchId = ''sketch'', axisEntityId = ''axis'', angle = 360,
                  revBooleanOp = None, revTargetBodyId = None\<rparr>"

section \<open>Dependency invalidation (GeometryComputer.markDirtyWithDependents)\<close>

text \<open>\<open>geometryCacheStore.markDirty\<close>: an entry that exists is replaced by a dirty copy.\<close>

definition markDirty ::
  "(string \<rightharpoonup> 'm ComputedGeometry) \<Rightarrow> string \<Rightarrow> (string \<rightharpoonup> 'm ComputedGeometry)" where
  "markDirty c nodeId =
     (case c nodeId of
        None \<Rightarrow> c
      | Some geometry \<Rightarrow> c(nodeId \<mapsto> geometry\<lparr>dirty := True\<rparr>))"

text \<open>
  The three tests of the scan: a boolean whose \<open>operandIds\<close> include the node, an
  extrude or a revolve whose \<open>sketchId\<close> is the node.
\<close>

definition dependsOn :: "CADNode \<Rightarrow> string \<Rightarrow> bool" where
  "dependsOn node nodeId =
     (case node of
        Boolean _ operandIds \<Rightarrow> nodeId \<in> set operandIds
      | Extrude params \<Rightarrow> sketchId params = nodeId
      | Revolve params \<Rightarrow> revSketchId params = nodeId
      | _ \<Rightarrow> False)"

text \<open>
  The loop over \<open>doc.nodes\<close>; \<open>rec\<close> is the recursive call, which gives \<open>None\<close> when it has
  not returned within the recursion depth allowed.
\<close>

fun scanNodes ::
  "((string \<rightharpoonup> 'm ComputedGeometry) \<Rightarrow> string \<Rightarrow> (string \<rightharpoonup> 'm ComputedGeometry) option)
     \<Rightarrow> Nodes \<Rightarrow> string \<Rightarrow> (string \<rightharpoonup> 'm ComputedGeometry)
     \<Rightarrow> (string \<rightharpoonup> 'm ComputedGeometry) option" where
  "scanNodes rec [] nodeId c = Some c"
| "scanNodes rec ((nid, node) # rest) nodeId c =
     (if dependsOn node nodeId then
        (case rec c nid of
           None \<Rightarrow> None
         | Some c' \<Rightarrow> scanNodes rec rest nodeId c')
      else scanNodes rec rest nodeId c)"

text \<open>
  \<open>markDirtyWithDependents\<close>. The recursion follows the references backwards and does not
  end on a cycle of references, so the first argument bounds its depth.
\<close>

primrec markDirtyWithDependents ::
  "nat \<Rightarrow> Nodes \<Rightarrow> (string \<rightharpoonup> 'm ComputedGeometry) \<Rightarrow> string
     \<Rightarrow> (string \<rightharpoonup> 'm ComputedGeometry) option" where
  "markDirtyWithDependents 0 nodes c nodeId = None"
| "markDirtyWithDependents (Suc n) nodes c nodeId =
     scanNodes (markDirtyWithDependents n nodes) nodes nodeId (markDirty c nodeId)"

text \<open>
  The reference relation of a document: the pairs of a node of the document and a node
  id it refers to, by an operand or by its sketch.
\<close>

definition refRel :: "Nodes \<Rightarrow> (string \<times> string) set" where
  "refRel nodes = {(dependent, target). \<exists>node. (dependent, node) \<in> set nodes \<and> dependsOn node target}"

text \<open>A cache with the entries of the given nodes marked dirty.\<close>

definition markAll ::
  "string set \<Rightarrow> (string \<rightharpoonup> 'm ComputedGeometry) \<Rightarrow> (string \<rightharpoonup> 'm ComputedGeometry)" where
  "markAll S c = (\<lambda>m. if m \<in> S then map_option (\<lambda>g. g\<lparr>dirty := True\<rparr>) (c m) else c m)"

text \<open>An acyclic document and a cache with a clean entry for each of its solids.\<close>

definition dagNodes :: Nodes where
  "dagNodes =
     [(''box'', Primitive Box [20, 20, 20]),
      (''sketch'', Sketch [squareProfile]),
      (''pad'', Extrude padParams),
      (''cut'', Boolean Difference [''box'', ''pad''])]"

definition cleanEntry :: "(real \<times> real) ComputedGeometry" where
  "cleanEntry = \<lparr>manifold = Some (0, 1), threeGeometry = Some (BufferGeometry [] [] []),
                 meshData = Some emptyMesh, topology = None, bounds = None,
                 dirty = False, error = None\<rparr>"

definition dagCache :: "string \<rightharpoonup> (real \<times> real) ComputedGeometry" where
  "dagCache = [''box'' \<mapsto> cleanEntry, ''pad'' \<mapsto> cleanEntry, ''cut'' \<mapsto> cleanEntry]"

section \<open>Solid: authoring arrays and winding repair (Solid module, class Solid)\<close>

text \<open>
  The authoring state of a Solid: the flat vertex array \<open>_vertProperties\<close>
  (\<open>x0, y0, z0, x1, ...\<close>), the flat index array \<open>_triVerts\<close> (\<open>i0, i1, i2, ...\<close>), the face
  id of each triangle, the map from vertex keys to indices, the map from face names to
  ids, the \<open>_dirty\<close> flag, the cached manifold and the face index. A vertex key is the
  text of the three coordinates, so two points have the same key exactly when their
  coordinates are equal. \<open>nextID\<close> is the kernel's counter behind
  \<open>Manifold.reserveIDs\<close>, which the source shares between all solids.
\<close>

record 'h Solid =
  vertProperties :: "real list"
  triVerts :: "nat list"
  triIDs :: "nat list"
  vertKeyToIndex :: "(Point3D \<times> nat) list"
  faceNameToID :: "(string \<times> nat) list"
  nextID :: nat
  solidDirty :: bool
  solidManifold :: "'h option"
  faceIndex :: "(nat \<times> nat list) list option"

text \<open>A Solid as its constructor leaves it.\<close>

definition newSolid :: "'h Solid" where
  "newSolid = \<lparr>vertProperties = [], triVerts = [], triIDs = [], vertKeyToIndex = [],
                faceNameToID = [], nextID = 1, solidDirty = True, solidManifold = None,
                faceIndex = None\<rparr>"

text \<open>
  \<open>_getPointIndex\<close>: the index of a point already present, or a new vertex at the end.
  (The checks that throw, on a point that is not an array of three finite numbers,
  cannot fail for a triple of reals.)
\<close>

definition getPointIndex :: "Point3D \<Rightarrow> 'h Solid \<Rightarrow> nat \<times> 'h Solid" where
  "getPointIndex p s =
     (case map_of (vertKeyToIndex s) p of
        Some found \<Rightarrow> (found, s)
      | None \<Rightarrow>
          (let idx = length (vertProperties s) div 3
           in (idx, s\<lparr>vertProperties := vertProperties s @ [fst p, fst (snd p), snd (snd p)],
                      vertKeyToIndex := vertKeyToIndex s @ [(p, idx)]\<rparr>)))"

text \<open>\<open>_getOrCreateID\<close>: throws when the module is not ready.\<close>

definition getOrCreateID :: "bool \<Rightarrow> string \<Rightarrow> 'h Solid \<Rightarrow> string + (nat \<times> 'h Solid)" where
  "getOrCreateID ready faceName s =
     (if \<not> ready then Inl ''Solid module not initialized''
      else
        (case map_of (faceNameToID s) faceName of
           Some fid \<Rightarrow> Inr (fid, s)
         | None \<Rightarrow>
             Inr (nextID s,
                  s\<lparr>faceNameToID := faceNameToID s @ [(faceName, nextID s)],
                    nextID := nextID s + 1\<rparr>)))"

text \<open>\<open>addTriangle\<close>\<close>

definition addTriangle ::
  "bool \<Rightarrow> string \<Rightarrow> Point3D \<Rightarrow> Point3D \<Rightarrow> Point3D \<Rightarrow> 'h Solid \<Rightarrow> string + 'h Solid" where
  "addTriangle ready faceName p0 p1 p2 s =
     (case getOrCreateID ready faceName s of
        Inl ex \<Rightarrow> Inl ex
      | Inr (fid, sa) \<Rightarrow>
          (let (i0, sb) = getPointIndex p0 sa;
               (i1, sc) = getPointIndex p1 sb;
               (i2, sd) = getPointIndex p2 sc
           in Inr (sd\<lparr>triVerts := triVerts sd @ [i0, i1, i2],
                      triIDs := triIDs sd @ [fid],
                      solidDirty := True,
                      faceIndex := None\<rparr>)))"

text \<open>
  What the authoring methods maintain: the index array holds whole triangles, the vertex
  array whole points, and every index in use is the index of a vertex.
\<close>

definition wellFormed :: "'h Solid \<Rightarrow> bool" where
  "wellFormed s \<longleftrightarrow>
     length (triVerts s) mod 3 = 0 \<and> length (vertProperties s) mod 3 = 0 \<and>
     (\<forall>i \<in> set (triVerts s). i < length (vertProperties s) div 3) \<and>
     (\<forall>i \<in> snd ` set (vertKeyToIndex s). i < length (vertProperties s) div 3)"

definition triCount :: "'h Solid \<Rightarrow> nat" where
  "triCount s = length (triVerts s) div 3"

text \<open>\<open>NV = BigInt(Math.max(1, numVerts))\<close> with \<open>numVerts = (_vertProperties.length / 3) | 0\<close>.\<close>

definition keyBase :: "'h Solid \<Rightarrow> nat" where
  "keyBase s = max 1 (length (vertProperties s) div 3)"

text \<open>The key of an undirected edge: \<open>A < B ? A * NV + B : B * NV + A\<close>.\<close>

definition ukey :: "nat \<Rightarrow> nat \<Rightarrow> nat \<Rightarrow> nat" where
  "ukey NV a b = (if a < b then a * NV + b else b * NV + a)"

text \<open>The index array read three entries at a time, as every loop over triangles does.\<close>

fun trisOf :: "nat list \<Rightarrow> (nat \<times> nat \<times> nat) list" where
  "trisOf (i0 # i1 # i2 # rest) = (i0, i1, i2) # trisOf rest"
| "trisOf _ = []"

text \<open>The three directed edges of a triangle: \<open>[i0, i1], [i1, i2], [i2, i0]\<close>.\<close>

definition triEdges :: "nat \<times> nat \<times> nat \<Rightarrow> (nat \<times> nat) list" where
  "triEdges tri = (case tri of (i0, i1, i2) \<Rightarrow> [(i0, i1), (i1, i2), (i2, i0)])"

text \<open>
  \<open>if (!map.has(key)) map.set(key, []); map.get(key).push(e)\<close> on a \<open>Map\<close>, which keeps
  its keys in insertion order.
\<close>

fun pushUse :: "nat \<Rightarrow> 'e \<Rightarrow> (nat \<times> 'e list) list \<Rightarrow> (nat \<times> 'e list) list" where
  "pushUse key e [] = [(key, [e])]"
| "pushUse key e ((key', es) # m) =
     (if key = key' then (key', es @ [e]) # m else (key', es) # pushUse key e m)"

text \<open>The edge map of the coherence check: for every key the directed uses, in order.\<close>

definition edgeMapOf :: "nat \<Rightarrow> (nat \<times> nat \<times> nat) list \<Rightarrow> (nat \<times> (nat \<times> nat) list) list" where
  "edgeMapOf NV tris =
     fold (\<lambda>tri m. fold (\<lambda>(a, b) m. pushUse (ukey NV a b) (a, b) m) (triEdges tri) m) tris []"

text \<open>
  The test on the uses of one key: exactly two, and the second is the first reversed
  (\<open>e0.a === e1.b && e0.b === e1.a\<close>).
\<close>

definition reversedPair :: "(nat \<times> nat) list \<Rightarrow> bool" where
  "reversedPair arr =
     (case arr of
        [e0, e1] \<Rightarrow> fst e0 = snd e1 \<and> snd e0 = fst e1
      | _ \<Rightarrow> False)"

definition isCoherentlyOrientedManifold :: "'h Solid \<Rightarrow> bool" where
  "isCoherentlyOrientedManifold s =
     (if triCount s = 0 then False
      else list_all reversedPair (map snd (edgeMapOf (keyBase s) (trisOf (triVerts s)))))"

text \<open>
  The map of the repair step: for every key the uses \<open>{tri, a, b}\<close>, with the number of
  the triangle that has the edge.
\<close>

definition undirectedOf ::
  "nat \<Rightarrow> (nat \<times> nat \<times> nat) list \<Rightarrow> (nat \<times> (nat \<times> nat \<times> nat) list) list" where
  "undirectedOf NV tris =
     fold (\<lambda>(ti, tri) m. fold (\<lambda>(a, b) m. pushUse (ukey NV a b) (ti, a, b) m) (triEdges tri) m)
       (zip [0..<length tris] tris) []"

text \<open>The state of the traversal: the triangles, the visited flags and the stack (top first).\<close>

record Traversal =
  tris :: "(nat \<times> nat \<times> nat) list"
  visited :: "bool list"
  stack :: "nat list"

text \<open>\<open>[nTri[1], nTri[2]] = [nTri[2], nTri[1]]\<close>\<close>

definition flipTri :: "nat \<times> nat \<times> nat \<Rightarrow> nat \<times> nat \<times> nat" where
  "flipTri tri = (case tri of (i0, i1, i2) \<Rightarrow> (i0, i2, i1))"

text \<open>
  The loop over the uses \<open>adj\<close> of the edge \<open>(a, b)\<close> of the current triangle \<open>t\<close>. Uses are
  built from the triangle array, so their triangle numbers are below the number of
  triangles; a number outside the array is passed over.
\<close>

fun visitEntries :: "nat \<Rightarrow> nat \<Rightarrow> nat \<Rightarrow> (nat \<times> nat \<times> nat) list \<Rightarrow> Traversal \<Rightarrow> Traversal" where
  "visitEntries t a b [] s = s"
| "visitEntries t a b ((n, ea, eb) # adj) s =
     (if n = t \<or> n \<ge> length (visited s) \<or> visited s ! n then visitEntries t a b adj s
      else visitEntries t a b adj
             (s\<lparr>tris := (if ea = a \<and> eb = b then (tris s)[n := flipTri (tris s ! n)] else tris s),
                visited := (visited s)[n := True],
                stack := n # stack s\<rparr>))"

text \<open>The loop over the three edges of the triangle popped from the stack.\<close>

definition processTri ::
  "(nat \<times> (nat \<times> nat \<times> nat) list) list \<Rightarrow> nat \<Rightarrow> nat \<Rightarrow> Traversal \<Rightarrow> Traversal" where
  "processTri undirected NV t s =
     fold (\<lambda>(a, b) s.
             (case map_of undirected (ukey NV a b) of
                None \<Rightarrow> s
              | Some adj \<Rightarrow> if length adj < 2 then s else visitEntries t a b adj s))
       (triEdges (tris s ! t)) s"

text \<open>The number of triangles not yet visited, twice, plus the height of the stack.\<close>

definition pending :: "Traversal \<Rightarrow> nat" where
  "pending s = 2 * length (filter Not (visited s)) + length (stack s)"

text \<open>\<open>while (stack.length > 0)\<close>\<close>

function bfsLoop ::
  "(nat \<times> (nat \<times> nat \<times> nat) list) list \<Rightarrow> nat \<Rightarrow> Traversal \<Rightarrow> Traversal" where
  "bfsLoop undirected NV s =
     (case stack s of
        [] \<Rightarrow> s
      | t # rest \<Rightarrow> bfsLoop undirected NV (processTri undirected NV t (s\<lparr>stack := rest\<rparr>)))"
  by pat_completeness auto
termination
proof (relation "measure (\<lambda>(undirected, NV, s). pending s)")
  show "wf (measure (\<lambda>(undirected, NV, s). pending s))" by simp
next
  fix undirected :: "(nat \<times> (nat \<times> nat \<times> nat) list) list" and NV :: nat
    and s :: Traversal and t rest
  assume st: "stack s = t # rest"
  have mark: "length (filter Not (vs[n := True])) < length (filter Not vs)"
    if "n < length vs" "\<not> vs ! n" for vs n
    using that
  proof (induction vs arbitrary: n)
    case Nil
    then show ?case by simp
  next
    case (Cons v vs)
    then show ?case by (cases n) auto
  qed
  have entries: "pending (visitEntries t a b adj u) \<le> pending u" for a b adj u
  proof (induction adj arbitrary: u)
    case Nil
    then show ?case by simp
  next
    case (Cons e adj)
    obtain n ea eb where e: "e = (n, ea, eb)" by (cases e)
    show ?case
    proof (cases "n = t \<or> n \<ge> length (visited u) \<or> visited u ! n")
      case True
      then show ?thesis using Cons.IH[of u] by (simp add: e)
    next
      case False
      let ?u = "u\<lparr>tris := (if ea = a \<and> eb = b then (tris u)[n := flipTri (tris u ! n)] else tris u),
                   visited := (visited u)[n := True], stack := n # stack u\<rparr>"
      have "pending ?u \<le> pending u"
        using mark[of n "visited u"] False by (simp add: pending_def)
      moreover have "pending (visitEntries t a b adj ?u) \<le> pending ?u" by (rule Cons.IH)
      ultimately show ?thesis using False by (simp add: e)
    qed
  qed
  have edges: "pending (fold (\<lambda>(a, b) s.
             (case map_of undirected (ukey NV a b) of
                None \<Rightarrow> s
              | Some adj \<Rightarrow> if length adj < 2 then s else visitEntries t a b adj s)) es u)
          \<le> pending u" for es u
  proof (induction es arbitrary: u)
    case Nil
    then show ?case by simp
  next
    case (Cons e es)
    obtain a b where e: "e = (a, b)" by (cases e)
    let ?u = "case map_of undirected (ukey NV a b) of
                None \<Rightarrow> u
              | Some adj \<Rightarrow> if length adj < 2 then u else visitEntries t a b adj u"
    have "pending ?u \<le> pending u" using entries by (auto split: option.splits)
    moreover have "pending (fold (\<lambda>(a, b) s.
             (case map_of undirected (ukey NV a b) of
                None \<Rightarrow> s
              | Some adj \<Rightarrow> if length adj < 2 then s else visitEntries t a b adj s)) es ?u)
          \<le> pending ?u" by (rule Cons.IH)
    ultimately show ?case by (simp add: e)
  qed
  have "pending (processTri undirected NV t (s\<lparr>stack := rest\<rparr>)) \<le> pending (s\<lparr>stack := rest\<rparr>)"
    unfolding processTri_def by (rule edges)
  also have "pending (s\<lparr>stack := rest\<rparr>) < pending s" using st by (simp add: pending_def)
  finally show "((undirected, NV, processTri undirected NV t (s\<lparr>stack := rest\<rparr>)), (undirected, NV, s))
          \<in> measure (\<lambda>(undirected, NV, s). pending s)"
    by simp
qed

text \<open>
  The loop over the seeds: an unvisited triangle is marked, pushed, and the traversal runs
  until the stack is empty again.
\<close>

definition seedLoop ::
  "(nat \<times> (nat \<times> nat \<times> nat) list) list \<Rightarrow> nat \<Rightarrow> nat list \<Rightarrow> Traversal \<Rightarrow> Traversal" where
  "seedLoop undirected NV seeds s0 =
     fold (\<lambda>seed s.
             if visited s ! seed then s
             else bfsLoop undirected NV
                    (s\<lparr>visited := (visited s)[seed := True], stack := seed # stack s\<rparr>))
       seeds s0"

text \<open>The triangle array written back to the flat index array.\<close>

definition flatten :: "(nat \<times> nat \<times> nat) list \<Rightarrow> nat list" where
  "flatten ts = concat (map (\<lambda>(i0, i1, i2). [i0, i1, i2]) ts)"

text \<open>
  \<open>_fixTriangleWindingsByAdjacency\<close>: nothing happens when the mesh is already coherent
  (or empty); otherwise the triangles are traversed and written back, and the solid is
  marked for a rebuild.
\<close>

definition fixTriangleWindingsByAdjacency :: "'h Solid \<Rightarrow> 'h Solid" where
  "fixTriangleWindingsByAdjacency s =
     (if isCoherentlyOrientedManifold s then s
      else if triCount s = 0 then s
      else
        (let ts = trisOf (triVerts s);
             undirected = undirectedOf (keyBase s) ts;
             final = seedLoop undirected (keyBase s) [0..<triCount s]
                       \<lparr>tris = ts, visited = replicate (triCount s) False, stack = []\<rparr>
         in s\<lparr>triVerts := flatten (tris final), solidDirty := True, faceIndex := None\<rparr>))"

text \<open>
  \<open>_computeSignedVolume\<close>: the sum of the triple products \<open>p0 \<cdot> (p1 \<times> p2)\<close> over the
  triangles, divided by 6.
\<close>

definition tripleProduct :: "real list \<Rightarrow> nat \<Rightarrow> nat \<Rightarrow> nat \<Rightarrow> real" where
  "tripleProduct vp i0 i1 i2 =
     (let x0 = vp ! (i0 * 3); y0 = vp ! (i0 * 3 + 1); z0 = vp ! (i0 * 3 + 2);
          x1 = vp ! (i1 * 3); y1 = vp ! (i1 * 3 + 1); z1 = vp ! (i1 * 3 + 2);
          x2 = vp ! (i2 * 3); y2 = vp ! (i2 * 3 + 1); z2 = vp ! (i2 * 3 + 2)
      in x0 * (y1 * z2 - z1 * y2) - y0 * (x1 * z2 - z1 * x2) + z0 * (x1 * y2 - y1 * x2))"

fun volumeLoop :: "real list \<Rightarrow> nat list \<Rightarrow> real \<Rightarrow> real" where
  "volumeLoop vp (i0 # i1 # i2 # rest) vol6 = volumeLoop vp rest (vol6 + tripleProduct vp i0 i1 i2)"
| "volumeLoop vp _ vol6 = vol6"

definition computeSignedVolume :: "'h Solid \<Rightarrow> real" where
  "computeSignedVolume s = volumeLoop (vertProperties s) (triVerts s) 0 / 6"

text \<open>The loop of \<open>_manifoldize\<close> that swaps the second and third index of every triangle.\<close>

fun flipAll :: "nat list \<Rightarrow> nat list" where
  "flipAll (i0 # i1 # i2 # rest) = i0 # i2 # i1 # flipAll rest"
| "flipAll rest = rest"

text \<open>
  \<open>_manifoldize\<close>. \<open>ready\<close> is \<open>isModuleReady()\<close>, and \<open>build\<close> stands for the kernel's
  construction of the manifold from the mesh (vertex array, index array, face ids),
  which may throw. \<open>Inl\<close> is an exception; the state is the one reached when it is thrown.
\<close>

definition manifoldize ::
  "bool \<Rightarrow> (real list \<Rightarrow> nat list \<Rightarrow> nat list \<Rightarrow> string + 'h) \<Rightarrow> 'h Solid
     \<Rightarrow> (string + 'h) \<times> 'h Solid" where
  "manifoldize ready build s =
     (case (if \<not> solidDirty s then solidManifold s else None) of
        Some m \<Rightarrow> (Inr m, s)
      | None \<Rightarrow>
          if \<not> ready then (Inl ''Solid module not initialized'', s)
          else if triCount s = 0 then (Inl ''No triangles to build'', s)
          else
            (let s1 = fixTriangleWindingsByAdjacency s;
                 s2 = (if computeSignedVolume s1 < 0 then s1\<lparr>triVerts := flipAll (triVerts s1)\<rparr>
                       else s1)
             in (case build (vertProperties s2) (triVerts s2) (take (triCount s2) (triIDs s2)) of
                   Inl err \<Rightarrow> (Inl err, s2)
                 | Inr m \<Rightarrow>
                     (Inr m, s2\<lparr>solidManifold := Some m, solidDirty := False, faceIndex := None\<rparr>))))"

section \<open>Edge uses, stated directly\<close>

text \<open>All directed edges of a mesh, triangle by triangle.\<close>

definition directedEdges :: "'h Solid \<Rightarrow> (nat \<times> nat) list" where
  "directedEdges s = concat (map triEdges (trisOf (triVerts s)))"

text \<open>The directed uses of an undirected edge key.\<close>

definition usesOf :: "'h Solid \<Rightarrow> nat \<Rightarrow> (nat \<times> nat) list" where
  "usesOf s key = filter (\<lambda>(a, b). ukey (keyBase s) a b = key) (directedEdges s)"

text \<open>
  Every undirected edge key has exactly two directed uses, and the two are mutual
  reverses, \<open>(a, b)\<close> and \<open>(b, a)\<close>.
\<close>

definition everyEdgeTwiceReversed :: "'h Solid \<Rightarrow> bool" where
  "everyEdgeTwiceReversed s \<longleftrightarrow>
     (\<forall>(a, b) \<in> set (directedEdges s).
        \<exists>c d. usesOf s (ukey (keyBase s) a b) = [(c, d), (d, c)])"

section \<open>Example solids\<close>

text \<open>A solid authored by a sequence of \<open>addTriangle\<close> calls, with the module ready.\<close>

fun addTriangles :: "(string \<times> Point3D \<times> Point3D \<times> Point3D) list \<Rightarrow> 'h Solid \<Rightarrow> 'h Solid" where
  "addTriangles [] s = s"
| "addTriangles ((faceName, p0, p1, p2) # rest) s =
     (case addTriangle True faceName p0 p1 p2 s of
        Inl _ \<Rightarrow> s
      | Inr s' \<Rightarrow> addTriangles rest s')"

text \<open>A solid without triangles.\<close>

definition emptySolid :: "nat Solid" where
  "emptySolid = newSolid"

text \<open>
  The unit tetrahedron with all four faces wound outward, and the same tetrahedron with
  its second and fourth face turned over.
\<close>

definition tetSolid :: "nat Solid" where
  "tetSolid =
     addTriangles
       [(''bottom'', (0, 0, 0), (0, 1, 0), (1, 0, 0)),
        (''front'', (0, 0, 0), (1, 0, 0), (0, 0, 1)),
        (''left'', (0, 0, 0), (0, 0, 1), (0, 1, 0)),
        (''slant'', (1, 0, 0), (0, 1, 0), (0, 0, 1))]
       newSolid"

definition mixedTetSolid :: "nat Solid" where
  "mixedTetSolid =
     addTriangles
       [(''bottom'', (0, 0, 0), (0, 1, 0), (1, 0, 0)),
        (''front'', (0, 0, 0), (0, 0, 1), (1, 0, 0)),
        (''left'', (0, 0, 0), (0, 0, 1), (0, 1, 0)),
        (''slant'', (1, 0, 0), (0, 0, 1), (0, 1, 0))]
       newSolid"

text \<open>
  Two disjoint unit tetrahedra, the second a copy of the first moved by 5 along x: one
  closed surface with two shells. The first shell is wound outward and the second
  inward; every edge is used once in each direction.
\<close>

definition twoShellSolid :: "nat Solid" where
  "twoShellSolid =
     addTriangles
       [(''bottom'', (0, 0, 0), (0, 1, 0), (1, 0, 0)),
        (''front'', (0, 0, 0), (1, 0, 0), (0, 0, 1)),
        (''left'', (0, 0, 0), (0, 0, 1), (0, 1, 0)),
        (''slant'', (1, 0, 0), (0, 1, 0), (0, 0, 1)),
        (''bottom2'', (5, 0, 0), (6, 0, 0), (5, 1, 0)),
        (''front2'', (5, 0, 0), (5, 0, 1), (6, 0, 0)),
        (''left2'', (5, 0, 0), (5, 1, 0), (5, 0, 1)),
        (''slant2'', (6, 0, 0), (5, 0, 1), (5, 1, 0))]
       newSolid"

text \<open>A kernel construction that accepts every mesh.\<close>

definition acceptMesh :: "real list \<Rightarrow> nat list \<Rightarrow> nat list \<Rightarrow> string + nat" where
  "acceptMesh vp tv ids = Inr 0"

text \<open>
  A document in which an extrusion is united with a target body: the extrusion reads the
  geometry of \<open>box\<close> through \<open>targetBodyId\<close>, which is none of the references that the
  invalidation follows.
\<close>

definition bossParams :: ExtrudeParams where
  "bossParams = \<lparr>sketchId = ''sketch'', distance = 10, direction = Normal, draftAngle = 0,
                  booleanOp = Some Union, targetBodyId = Some ''box''\<rparr>"

definition bossNodes :: Nodes where
  "bossNodes =
     [(''box'', Primitive Box [20, 20, 20]),
      (''sketch'', Sketch [squareProfile]),
      (''boss'', Extrude bossParams)]"

definition bossCache :: "string \<rightharpoonup> (real \<times> real) ComputedGeometry" where
  "bossCache = [''box'' \<mapsto> cleanEntry, ''boss'' \<mapsto> cleanEntry]"

section \<open>Proofs\<close>

subsection \<open>The closed flag of an edge\<close>

lemma abs_le_euclid: "\<bar>x\<bar> \<le> sqrt (x\<^sup>2 + y\<^sup>2 + z\<^sup>2)" for x y z :: real
proof -
  have "x\<^sup>2 \<le> x\<^sup>2 + y\<^sup>2 + z\<^sup>2" by simp
  then have "sqrt (x\<^sup>2) \<le> sqrt (x\<^sup>2 + y\<^sup>2 + z\<^sup>2)" by (rule real_sqrt_le_mono)
  then show ?thesis by simp
qed

lemma sq_lt_of_abs_lt: "\<bar>x\<bar> < t \<Longrightarrow> x\<^sup>2 < t\<^sup>2" for x t :: real
  using power_strict_mono [of "\<bar>x\<bar>" t 2] by simp

lemma euclid_lt_of_coordinates:
  fixes x y z t :: real
  assumes "\<bar>x\<bar> < t" "\<bar>y\<bar> < t" "\<bar>z\<bar> < t"
  shows "sqrt (x\<^sup>2 + y\<^sup>2 + z\<^sup>2) < sqrt 3 * t"
proof -
  have t: "0 < t" using assms(1) by linarith
  have "x\<^sup>2 + y\<^sup>2 + z\<^sup>2 < 3 * t\<^sup>2"
    using sq_lt_of_abs_lt [OF assms(1)] sq_lt_of_abs_lt [OF assms(2)] sq_lt_of_abs_lt [OF assms(3)]
    by linarith
  then have "sqrt (x\<^sup>2 + y\<^sup>2 + z\<^sup>2) < sqrt (3 * t\<^sup>2)" by (rule real_sqrt_less_mono)
  also have "sqrt (3 * t\<^sup>2) = sqrt 3 * t" using t by (simp add: real_sqrt_mult)
  finally show ?thesis .
qed

text \<open>The test of the constructor, on the first and the last point of the polyline.\<close>

lemma closedLoop_coordinates:
  assumes "length positions \<ge> 2"
  shows "closedLoop positions \<longleftrightarrow>
     \<bar>fst (hd positions) - fst (last positions)\<bar> < tolerance \<and>
     \<bar>fst (snd (hd positions)) - fst (snd (last positions))\<bar> < tolerance \<and>
     \<bar>snd (snd (hd positions)) - snd (snd (last positions))\<bar> < tolerance"
proof -
  from assms have ne: "positions \<noteq> []" by auto
  have h: "positions ! 0 = hd positions" using ne by (simp add: hd_conv_nth)
  have l: "positions ! (length positions - 1) = last positions" using ne by (simp add: last_conv_nth)
  show ?thesis unfolding closedLoop_def Let_def h l using assms by simp
qed

text \<open>Points closer than the tolerance in Euclidean distance close the loop.\<close>

lemma euclid_close_closes_loop:
  assumes "length positions \<ge> 2"
    and "euclidDistance (hd positions) (last positions) < tolerance"
  shows "closedLoop positions"
proof -
  obtain a b c where p: "hd positions = (a, b, c)" by (cases "hd positions") auto
  obtain d e f where q: "last positions = (d, e, f)" by (cases "last positions") auto
  have 1: "\<bar>a - d\<bar> \<le> sqrt ((a - d)\<^sup>2 + (b - e)\<^sup>2 + (c - f)\<^sup>2)" by (rule abs_le_euclid)
  have 2: "\<bar>b - e\<bar> \<le> sqrt ((b - e)\<^sup>2 + (a - d)\<^sup>2 + (c - f)\<^sup>2)" by (rule abs_le_euclid)
  have 3: "\<bar>c - f\<bar> \<le> sqrt ((c - f)\<^sup>2 + (a - d)\<^sup>2 + (b - e)\<^sup>2)" by (rule abs_le_euclid)
  have e: "sqrt ((a - d)\<^sup>2 + (b - e)\<^sup>2 + (c - f)\<^sup>2) < tolerance"
    using assms(2) by (simp add: p q euclidDistance_def)
  have "\<bar>a - d\<bar> < tolerance \<and> \<bar>b - e\<bar> < tolerance \<and> \<bar>c - f\<bar> < tolerance"
    using 1 2 3 e by (simp add: add.commute add.left_commute)
  then show ?thesis using closedLoop_coordinates [OF assms(1)] by (simp add: p q)
qed

text \<open>
  The first and the last point of a closed loop are closer than \<open>sqrt 3\<close> times the tolerance
  in Euclidean distance.
\<close>

lemma closed_loop_euclid_bound:
  assumes "length positions \<ge> 2" and "closedLoop positions"
  shows "euclidDistance (hd positions) (last positions) < sqrt 3 * tolerance"
  using assms closedLoop_coordinates [OF assms(1)]
  unfolding euclidDistance_def by (simp add: euclid_lt_of_coordinates)

text \<open>
  C8 (as amended). For every extracted edge polyline with at least two points, the
  closed flag is true if and only if each of the three coordinates of the first point
  differs from the same coordinate of the last point by less than \<open>1e-9\<close> in absolute
  value (\<open>tolerance\<close> is \<open>1e-9\<close>). In terms of the distance of the two points: the flag is
  true whenever their Euclidean distance is below \<open>1e-9\<close>, and whenever the flag is true
  their Euclidean distance is below \<open>sqrt 3 \<times> 1e-9\<close>.
\<close>

theorem closedLoop_iff_coordinates_within_tolerance:
  assumes "length positions \<ge> 2"
  shows "(closedLoop positions \<longleftrightarrow>
            \<bar>fst (hd positions) - fst (last positions)\<bar> < tolerance \<and>
            \<bar>fst (snd (hd positions)) - fst (snd (last positions))\<bar> < tolerance \<and>
            \<bar>snd (snd (hd positions)) - snd (snd (last positions))\<bar> < tolerance) \<and>
         (euclidDistance (hd positions) (last positions) < tolerance \<longrightarrow> closedLoop positions) \<and>
         (closedLoop positions \<longrightarrow>
            euclidDistance (hd positions) (last positions) < sqrt 3 * tolerance)"
  using closedLoop_coordinates [OF assms] euclid_close_closes_loop [OF assms]
    closed_loop_euclid_bound [OF assms] by blast

theorem closedLoop_iff_coordinates_within_tolerance_witness:
  "length [(0, 0, 0), (1, 0, 0), (1, 1, 0), (0, 0, 0 :: real)] \<ge> 2 \<and>
   closedLoop [(0, 0, 0), (1, 0, 0), (1, 1, 0), (0, 0, 0)] \<and>
   length [(0, 0, 0), (1, 0, 0 :: real)] \<ge> 2 \<and>
   \<not> closedLoop [(0, 0, 0), (1, 0, 0)] \<and>
   \<not> euclidDistance (0, 0, 0) (1, 0, 0) < tolerance"
  using closedLoop_iff_coordinates_within_tolerance [of "[(0, 0, 0), (1, 0, 0), (1, 1, 0), (0, 0, 0)]"]
    closedLoop_iff_coordinates_within_tolerance [of "[(0, 0, 0), (1, 0, 0)]"]
  by (simp add: tolerance_def euclidDistance_def)

text \<open>
  The claim as stated, with the distance of two points, fails in its "only if" half: the
  polyline from the origin to the point \<open>(9e-10, 9e-10, 9e-10)\<close> is flagged closed,
  although its two ends are \<open>sqrt 3 \<times> 9e-10\<close>, more than \<open>1e-9\<close>, apart.
\<close>

theorem closed_loop_beyond_euclidean_tolerance:
  "length [(0, 0, 0), (9 / 10 ^ 10, 9 / 10 ^ 10, 9 / 10 ^ 10 :: real)] \<ge> 2 \<and>
   closedLoop [(0, 0, 0), (9 / 10 ^ 10, 9 / 10 ^ 10, 9 / 10 ^ 10)] \<and>
   \<not> euclidDistance (0, 0, 0) (9 / 10 ^ 10, 9 / 10 ^ 10, 9 / 10 ^ 10) < tolerance"
proof -
  have c: "closedLoop [(0, 0, 0), (9 / 10 ^ 10, 9 / 10 ^ 10, 9 / 10 ^ 10)]"
    by (simp add: closedLoop_def tolerance_def)
  have "(1 / 10 ^ 9 :: real) \<le> sqrt ((9 / 10 ^ 10)\<^sup>2 + (9 / 10 ^ 10)\<^sup>2 + (9 / 10 ^ 10)\<^sup>2)"
    by (rule real_le_rsqrt) (simp add: power2_eq_square)
  then have "\<not> euclidDistance (0, 0, 0) (9 / 10 ^ 10, 9 / 10 ^ 10, 9 / 10 ^ 10) < tolerance"
    by (simp add: euclidDistance_def tolerance_def)
  with c show ?thesis by simp
qed

subsection \<open>compute: how the state changes\<close>

lemma computeOperands_rel:
  assumes refl: "\<forall>s. R s s"
    and trans: "\<forall>a b c. R a b \<longrightarrow> R b c \<longrightarrow> R a c"
    and rec: "\<forall>s i s' r. rec s i = Some (s', r) \<longrightarrow> R s s'"
  shows "computeOperands rec st ids acc = Some (st', x) \<Longrightarrow> R st st'"
proof (induction ids arbitrary: st acc)
  case Nil
  then show ?case using refl by simp
next
  case (Cons operandId rest)
  from Cons.prems obtain s1 r1 where r1: "rec st operandId = Some (s1, r1)"
    by (auto split: option.splits)
  have step: "R st s1" using rec r1 by blast
  show ?case
  proof (cases r1)
    case (Inl e)
    with Cons.prems r1 have "st' = s1" by simp
    with step show ?thesis by simp
  next
    case (Inr val)
    show ?thesis
    proof (cases "manifold val = None")
      case True
      with Cons.prems r1 Inr have "st' = s1" by simp
      with step show ?thesis by simp
    next
      case False
      with Cons.prems r1 Inr have "computeOperands rec s1 rest (acc @ [val]) = Some (st', x)"
        by simp
      then have "R s1 st'" by (rule Cons.IH)
      with step show ?thesis using trans by blast
    qed
  qed
qed

lemma handleTarget_cases:
  assumes "handleTarget rec k st params result = Some (st', out)"
  shows "st' = st \<or> (\<exists>t r. rec st t = Some (st', r))"
proof (cases "booleanOp params")
  case None
  with assms show ?thesis by (simp add: handleTarget_def)
next
  case op: (Some operation)
  show ?thesis
  proof (cases "targetBodyId params")
    case None
    with assms op show ?thesis by (simp add: handleTarget_def)
  next
    case (Some target)
    show ?thesis
    proof (cases "target = []")
      case True
      with assms op Some show ?thesis by (simp add: handleTarget_def)
    next
      case False
      with assms op Some obtain tr where "rec st target = Some (st', tr)"
        by (auto simp: handleTarget_def split: option.splits)
      then show ?thesis by blast
    qed
  qed
qed

lemma computeExtrude_cases:
  assumes "computeExtrude rec k nodes st params = Some (st', out)"
  shows "st' = st \<or> (\<exists>t r. rec st t = Some (st', r))"
proof (cases "getSketch nodes (sketchId params)")
  case None
  with assms show ?thesis by (simp add: computeExtrude_def)
next
  case (Some profiles)
  show ?thesis
  proof (cases "profiles = [] \<or> extrudeProfiles k (distance params) (direction params) profiles [] = []")
    case True
    with assms Some show ?thesis by (auto simp: computeExtrude_def Let_def split: if_splits)
  next
    case False
    with assms Some have "handleTarget rec k st params
        (unionAll k (hd (extrudeProfiles k (distance params) (direction params) profiles []))
                    (tl (extrudeProfiles k (distance params) (direction params) profiles [])))
       = Some (st', out)"
      by (simp add: computeExtrude_def Let_def)
    then show ?thesis by (rule handleTarget_cases)
  qed
qed

lemma computeBoolean_cases:
  assumes "computeBoolean rec k st operation operandIds = Some (st', out)"
  shows "st' = st \<or> (\<exists>x. computeOperands rec st operandIds [] = Some (st', x))"
proof (cases "length operandIds < 2")
  case True
  with assms show ?thesis by (simp add: computeBoolean_def)
next
  case False
  show ?thesis
  proof (cases "computeOperands rec st operandIds []")
    case None
    with assms False show ?thesis by (simp add: computeBoolean_def)
  next
    case (Some p)
    obtain s x where p: "p = (s, x)" by (cases p)
    have "s = st'"
    proof (cases x)
      case (Inl a)
      with assms False Some p show ?thesis by (simp add: computeBoolean_def)
    next
      case (Inr gs)
      with assms False Some p show ?thesis
        by (simp add: computeBoolean_def split: sum.splits)
    qed
    with Some p show ?thesis by simp
  qed
qed

lemma dispatch_rel:
  assumes refl: "\<forall>s. R s s"
    and trans: "\<forall>a b c. R a b \<longrightarrow> R b c \<longrightarrow> R a c"
    and rec: "\<forall>s i s' r. rec s i = Some (s', r) \<longrightarrow> R s s'"
    and d: "dispatch rec k nodes st node = Some (st', out)"
  shows "R st st'"
proof (cases node)
  case (Primitive t ps)
  with d have "st' = st" by (simp add: dispatch_def)
  then show ?thesis using refl by simp
next
  case (Boolean operation operandIds)
  with d have "computeBoolean rec k st operation operandIds = Some (st', out)"
    by (simp add: dispatch_def)
  from computeBoolean_cases[OF this] show ?thesis
    using refl computeOperands_rel[OF refl trans rec] by blast
next
  case (Sketch ps)
  with d have "st' = st" by (simp add: dispatch_def)
  then show ?thesis using refl by simp
next
  case (Extrude params)
  with d have "computeExtrude rec k nodes st params = Some (st', out)"
    by (simp add: dispatch_def)
  from computeExtrude_cases[OF this] show ?thesis using refl rec by blast
next
  case (Revolve params)
  with d have "st' = st" by (simp add: dispatch_def)
  then show ?thesis using refl by simp
next
  case (Other t)
  with d have "st' = st" by (simp add: dispatch_def)
  then show ?thesis using refl by simp
qed

text \<open>What one call of compute does to the state, in terms of what its recursive calls do.\<close>

lemma initialize_cases:
  "initialize k st = Inl e \<Longrightarrow> \<not> initialized st"
  "initialize k st = Inr st1 \<Longrightarrow> (st1 = st \<or> st1 = st\<lparr>initialized := True\<rparr>) \<and> initialized st1"
  by (auto simp: initialize_def split: if_splits sum.splits)

lemma compute_shape:
  assumes c: "compute (Suc n) k nodes st nodeId = Some (st', r)"
  shows "(st' = st \<or> st' = st\<lparr>initialized := True\<rparr>) \<or>
         (\<exists>st1 st2 node out. (st1 = st \<or> st1 = st\<lparr>initialized := True\<rparr>) \<and>
            initialized st1 \<and> nodeId \<notin> computing st1 \<and> map_of nodes nodeId = Some node \<and>
            cacheHit st1 nodeId = None \<and>
            dispatch (compute n k nodes) k nodes
              (st1\<lparr>computing := insert nodeId (computing st1)\<rparr>) node = Some (st2, out) \<and>
            (st', r) = finish nodeId st2 out)"
proof (cases "if \<not> initialized st then initialize k st else Inr st")
  case (Inl e)
  with c have "st' = st" by simp
  then show ?thesis by blast
next
  case (Inr st1)
  then have st1: "st1 = st \<or> st1 = st\<lparr>initialized := True\<rparr>" and ini: "initialized st1"
    using initialize_cases(2)[of k st st1] by (simp_all split: if_splits)
  show ?thesis
  proof (cases "nodeId \<in> computing st1")
    case True
    with c Inr have "st' = st1" by simp
    with st1 show ?thesis by blast
  next
    case notin: False
    show ?thesis
    proof (cases "map_of nodes nodeId")
      case None
      with c Inr notin have "st' = st1" by simp
      with st1 show ?thesis by blast
    next
      case (Some node)
      show ?thesis
      proof (cases "cacheHit st1 nodeId")
        case hit: (Some cached)
        with c Inr notin Some have "st' = st1" by simp
        with st1 show ?thesis by blast
      next
        case miss: None
        show ?thesis
        proof (cases "dispatch (compute n k nodes) k nodes
                (st1\<lparr>computing := insert nodeId (computing st1)\<rparr>) node")
          case None
          with c Inr notin Some miss show ?thesis by simp
        next
          case d: (Some p)
          obtain st2 out where p: "p = (st2, out)" by (cases p)
          from c Inr notin Some miss d p have "(st', r) = finish nodeId st2 out" by simp
          with st1 ini notin Some miss d p show ?thesis by blast
        qed
      qed
    qed
  qed
qed

lemma finish_computing:
  "(st', r) = finish nodeId st2 out \<Longrightarrow> computing st' = computing st2 - {nodeId}"
  by (cases out) (simp_all add: finish_def)

lemma compute_computing:
  "compute n k nodes st nodeId = Some (st', r) \<Longrightarrow> computing st' = computing st"
proof (induction n arbitrary: st nodeId st' r)
  case 0
  then show ?case by simp
next
  case (Suc n)
  let ?R = "\<lambda>a b :: 'a State. computing b = computing a"
  have rec: "\<forall>s i s' r. compute n k nodes s i = Some (s', r) \<longrightarrow> ?R s s'"
    using Suc.IH by blast
  consider (early) "st' = st \<or> st' = st\<lparr>initialized := True\<rparr>"
    | (run) st1 st2 node out where "st1 = st \<or> st1 = st\<lparr>initialized := True\<rparr>"
        "nodeId \<notin> computing st1"
        "dispatch (compute n k nodes) k nodes
           (st1\<lparr>computing := insert nodeId (computing st1)\<rparr>) node = Some (st2, out)"
        "(st', r) = finish nodeId st2 out"
    using compute_shape[OF Suc.prems] by blast
  then show ?case
  proof cases
    case early
    then show ?thesis by (elim disjE) simp_all
  next
    case run
    have "?R (st1\<lparr>computing := insert nodeId (computing st1)\<rparr>) st2"
      by (rule dispatch_rel[where R = ?R, OF _ _ rec run(3)]) simp_all
    then have "computing st2 = insert nodeId (computing st1)" by simp
    moreover have "computing st' = computing st2 - {nodeId}"
      using run(4) by (rule finish_computing)
    ultimately have "computing st' = computing st1" using run(2) by simp
    moreover have "computing st1 = computing st" using run(1) by (elim disjE) simp_all
    ultimately show ?thesis by simp
  qed
qed

lemma createEmptyGeometry_failure: "failureEntry (createEmptyGeometry e)"
  by (simp add: failureEntry_def createEmptyGeometry_def)

lemma manifoldToGeometry_entry:
  "manifoldToGeometry k solid = Inr g \<Longrightarrow> successEntry g \<or> failureEntry g"
  unfolding manifoldToGeometry_def
  by (cases "extractMesh k solid"; cases "bufferGeometry k (projr (extractMesh k solid))")
     (auto simp: createEmptyGeometry_failure successEntry_def)

lemma computePrimitive_entry:
  "successEntry (computePrimitive k node) \<or> failureEntry (computePrimitive k node)"
proof (cases "moduleReady k")
  case False
  then show ?thesis by (simp add: computePrimitive_def createEmptyGeometry_failure)
next
  case True
  show ?thesis
  proof (cases "buildSolid k node")
    case (Inl ex)
    with True show ?thesis by (simp add: computePrimitive_def createEmptyGeometry_failure)
  next
    case (Inr solid)
    show ?thesis
    proof (cases "extractMesh k solid")
      case (Inl e)
      with True Inr show ?thesis by (simp add: computePrimitive_def createEmptyGeometry_failure)
    next
      case mesh: (Inr mesh)
      show ?thesis
      proof (cases "bufferGeometry k mesh")
        case (Inl ex)
        with True Inr mesh show ?thesis
          by (simp add: computePrimitive_def createEmptyGeometry_failure)
      next
        case three: (Inr three)
        show ?thesis
        proof (cases "solidTopology k node")
          case (Inl ex)
          with True Inr mesh three show ?thesis
            by (simp add: computePrimitive_def createEmptyGeometry_failure)
        next
          case topo: (Inr topo)
          with True Inr mesh three show ?thesis
            by (simp add: computePrimitive_def successEntry_def)
        qed
      qed
    qed
  qed
qed

lemma computeRevolve_entry:
  "computeRevolve k nodes params = Inr g \<Longrightarrow> successEntry g \<or> failureEntry g"
  unfolding computeRevolve_def Let_def
  by (auto simp: createEmptyGeometry_failure split: option.splits if_splits
        dest: manifoldToGeometry_entry)

lemma handleTarget_entry:
  "handleTarget rec k st params result = Some (st', Inr g) \<Longrightarrow> successEntry g \<or> failureEntry g"
  unfolding handleTarget_def
  by (auto split: option.splits if_splits dest: manifoldToGeometry_entry)

lemma computeExtrude_entry:
  "computeExtrude rec k nodes st params = Some (st', Inr g) \<Longrightarrow> successEntry g \<or> failureEntry g"
  unfolding computeExtrude_def Let_def
  by (auto simp: createEmptyGeometry_failure split: option.splits if_splits
        dest: handleTarget_entry)

lemma computeBoolean_entry:
  "computeBoolean rec k st operation operandIds = Some (st', Inr g)
     \<Longrightarrow> successEntry g \<or> failureEntry g"
  unfolding computeBoolean_def
  by (auto simp: createEmptyGeometry_failure split: option.splits if_splits sum.splits
        dest: manifoldToGeometry_entry)

lemma dispatch_entry:
  assumes "dispatch rec k nodes st node = Some (st', Inr g)"
  shows "successEntry g \<or> failureEntry g"
proof (cases node)
  case (Primitive t ps)
  with assms have "g = computePrimitive k node" by (simp add: dispatch_def)
  then show ?thesis using computePrimitive_entry by blast
next
  case (Boolean operation operandIds)
  with assms have "computeBoolean rec k st operation operandIds = Some (st', Inr g)"
    by (simp add: dispatch_def)
  then show ?thesis by (rule computeBoolean_entry)
next
  case (Sketch ps)
  with assms show ?thesis by (auto simp: dispatch_def createEmptyGeometry_failure)
next
  case (Extrude params)
  with assms have "computeExtrude rec k nodes st params = Some (st', Inr g)"
    by (simp add: dispatch_def)
  then show ?thesis by (rule computeExtrude_entry)
next
  case (Revolve params)
  with assms have "computeRevolve k nodes params = Inr g" by (simp add: dispatch_def)
  then show ?thesis by (rule computeRevolve_entry)
next
  case (Other t)
  with assms show ?thesis by (auto simp: dispatch_def createEmptyGeometry_failure)
qed


text \<open>
  C1 (as amended). Every invocation of \<open>compute\<close> that gets past the guards (the node is
  not being computed, it exists, and the cache holds no clean entry for it) overwrites
  the node's cache entry, and the stored entry always has \<open>dirty = false\<close>: it is
  either a success entry, whose error is null, or a failure entry, whose geometry fields
  are all null and whose error holds the message. The stored entry is the value returned,
  or the empty geometry of the caught exception.
\<close>

theorem compute_stores_entry:
  assumes c: "compute (Suc n) k nodes st nodeId = Some (st', r)"
    and ini: "initialized st \<or> (\<exists>u. engineInit k = Inr u)"
    and notin: "nodeId \<notin> computing st"
    and node: "map_of nodes nodeId = Some node"
    and miss: "cacheHit st nodeId = None"
  shows "\<exists>g. cache st' nodeId = Some g \<and> dirty g = False \<and>
             (successEntry g \<or> failureEntry g) \<and>
             (case r of Inr val \<Rightarrow> val = g
                      | Inl ex \<Rightarrow> g = createEmptyGeometry (''Computation error: '' @ ex))"
proof -
  obtain st1 where i: "(if \<not> initialized st then initialize k st else Inr st) = Inr st1"
    and c1: "computing st1 = computing st" and h1: "cacheHit st1 nodeId = cacheHit st nodeId"
    using ini by (cases "initialized st") (auto simp: initialize_def cacheHit_def)
  from c i notin c1 node miss h1 obtain st2 out where
    d: "dispatch (compute n k nodes) k nodes
          (st1\<lparr>computing := insert nodeId (computing st1)\<rparr>) node = Some (st2, out)"
    and f: "(st', r) = finish nodeId st2 out"
    by (auto split: option.splits)
  have stored: "cache st' nodeId =
      Some (case out of Inr g \<Rightarrow> g | Inl ex \<Rightarrow> createEmptyGeometry (''Computation error: '' @ ex))"
    using f by (cases out) (simp_all add: finish_def)
  have res: "r = (case out of Inr g \<Rightarrow> Inr g | Inl ex \<Rightarrow> Inl ex)"
    using f by (cases out) (simp_all add: finish_def)
  show ?thesis
  proof (cases out)
    case (Inl ex)
    let ?g = "createEmptyGeometry (''Computation error: '' @ ex) :: 'a ComputedGeometry"
    have fe: "failureEntry ?g" by (rule createEmptyGeometry_failure)
    then have "dirty ?g = False" by (simp add: failureEntry_def)
    with fe stored res Inl show ?thesis by simp
  next
    case (Inr g)
    with d have sf: "successEntry g \<or> failureEntry g" using dispatch_entry by blast
    then have "dirty g = False" by (auto simp: successEntry_def failureEntry_def)
    with sf stored res Inr show ?thesis by simp
  qed
qed

subsection \<open>compute returns\<close>

lemma computeOperands_returns:
  assumes total: "\<forall>s i. computing s = C \<longrightarrow> rec s i \<noteq> None"
    and keeps: "\<forall>s i s' r. rec s i = Some (s', r) \<longrightarrow> computing s' = computing s"
  shows "computing st = C \<Longrightarrow> computeOperands rec st ids acc \<noteq> None"
proof (induction ids arbitrary: st acc)
  case Nil
  then show ?case by simp
next
  case (Cons operandId rest)
  from total Cons.prems have "rec st operandId \<noteq> None" by blast
  then obtain s1 r1 where r1: "rec st operandId = Some (s1, r1)" by auto
  with keeps Cons.prems have c1: "computing s1 = C" by metis
  show ?case
  proof (cases r1)
    case (Inl e)
    with r1 show ?thesis by simp
  next
    case (Inr val)
    show ?thesis
    proof (cases "manifold val = None")
      case True
      with r1 Inr show ?thesis by simp
    next
      case False
      with r1 Inr Cons.IH[OF c1] show ?thesis by simp
    qed
  qed
qed

lemma computeBoolean_returns:
  assumes total: "\<forall>s i. computing s = C \<longrightarrow> rec s i \<noteq> None"
    and keeps: "\<forall>s i s' r. rec s i = Some (s', r) \<longrightarrow> computing s' = computing s"
    and st: "computing st = C"
  shows "computeBoolean rec k st operation operandIds \<noteq> None"
proof (cases "length operandIds < 2")
  case True
  then show ?thesis by (simp add: computeBoolean_def)
next
  case False
  from computeOperands_returns[OF total keeps st, of operandIds "[]"]
  obtain s x where sx: "computeOperands rec st operandIds [] = Some (s, x)" by auto
  show ?thesis
  proof (cases x)
    case (Inl a)
    with False sx show ?thesis by (simp add: computeBoolean_def)
  next
    case (Inr gs)
    with False sx show ?thesis by (simp add: computeBoolean_def split: sum.splits)
  qed
qed

lemma handleTarget_returns:
  assumes total: "\<forall>s i. computing s = C \<longrightarrow> rec s i \<noteq> None"
    and st: "computing st = C"
  shows "handleTarget rec k st params result \<noteq> None"
proof (cases "booleanOp params")
  case None
  then show ?thesis by (simp add: handleTarget_def)
next
  case op: (Some operation)
  show ?thesis
  proof (cases "targetBodyId params")
    case None
    with op show ?thesis by (simp add: handleTarget_def)
  next
    case (Some target)
    from total st have "rec st target \<noteq> None" by blast
    then obtain s r where "rec st target = Some (s, r)" by auto
    with op Some show ?thesis by (simp add: handleTarget_def)
  qed
qed

lemma computeExtrude_returns:
  assumes total: "\<forall>s i. computing s = C \<longrightarrow> rec s i \<noteq> None"
    and st: "computing st = C"
  shows "computeExtrude rec k nodes st params \<noteq> None"
  using handleTarget_returns[OF total st]
  by (simp add: computeExtrude_def Let_def split: option.splits)

lemma dispatch_returns:
  assumes total: "\<forall>s i. computing s = C \<longrightarrow> rec s i \<noteq> None"
    and keeps: "\<forall>s i s' r. rec s i = Some (s', r) \<longrightarrow> computing s' = computing s"
    and st: "computing st = C"
  shows "dispatch rec k nodes st node \<noteq> None"
proof (cases node)
  case (Boolean operation operandIds)
  then show ?thesis using computeBoolean_returns[OF total keeps st] by (simp add: dispatch_def)
next
  case (Extrude params)
  then show ?thesis using computeExtrude_returns[OF total st] by (simp add: dispatch_def)
qed (simp_all add: dispatch_def)

lemma compute_returns_aux:
  "card (fst ` set nodes - computing st) < n \<Longrightarrow> compute n k nodes st nodeId \<noteq> None"
proof (induction n arbitrary: st nodeId)
  case 0
  then show ?case by simp
next
  case (Suc n)
  show ?case
  proof (cases "if \<not> initialized st then initialize k st else Inr st")
    case (Inl e)
    then show ?thesis by simp
  next
    case (Inr st1)
    then have c1: "computing st1 = computing st"
      using initialize_cases(2)[of k st st1] by (auto split: if_splits)
    show ?thesis
    proof (cases "nodeId \<in> computing st1")
      case True
      with Inr show ?thesis by simp
    next
      case notin: False
      show ?thesis
      proof (cases "map_of nodes nodeId")
        case None
        with Inr notin show ?thesis by simp
      next
        case (Some node)
        show ?thesis
        proof (cases "cacheHit st1 nodeId")
          case hit: (Some cached)
          with Inr notin Some show ?thesis by simp
        next
          case miss: None
          let ?C = "insert nodeId (computing st1)"
          let ?st2 = "st1\<lparr>computing := ?C\<rparr>"
          have key: "nodeId \<in> fst ` set nodes" using Some by (metis map_of_eq_None_iff option.distinct(1))
          have "fst ` set nodes - ?C = (fst ` set nodes - computing st) - {nodeId}"
            using c1 by auto
          moreover have "nodeId \<in> fst ` set nodes - computing st" using key notin c1 by simp
          moreover have "finite (fst ` set nodes - computing st)" by simp
          ultimately have "card (fst ` set nodes - ?C) < card (fst ` set nodes - computing st)"
            using card_Diff1_less[of "fst ` set nodes - computing st" nodeId] by simp
          with Suc.prems have small: "card (fst ` set nodes - ?C) < n" by simp
          have total: "\<forall>s i. computing s = ?C \<longrightarrow> compute n k nodes s i \<noteq> None"
            using Suc.IH small by metis
          have keeps: "\<forall>s i s' r. compute n k nodes s i = Some (s', r) \<longrightarrow> computing s' = computing s"
            using compute_computing by blast
          have "dispatch (compute n k nodes) k nodes ?st2 node \<noteq> None"
            by (rule dispatch_returns[OF total keeps]) simp
          then obtain st3 out where
            "dispatch (compute n k nodes) k nodes ?st2 node = Some (st3, out)" by auto
          with Inr notin Some miss show ?thesis by simp
        qed
      qed
    qed
  qed
qed

subsection \<open>The result of compute does not depend on the recursion bound\<close>

lemma computeOperands_mono:
  assumes le: "\<forall>s i r. rec s i = Some r \<longrightarrow> rec' s i = Some r"
  shows "computeOperands rec st ids acc = Some x \<Longrightarrow> computeOperands rec' st ids acc = Some x"
proof (induction ids arbitrary: st acc)
  case Nil
  then show ?case by simp
next
  case (Cons operandId rest)
  from Cons.prems obtain s1 r1 where r1: "rec st operandId = Some (s1, r1)"
    by (auto split: option.splits)
  with le have r1': "rec' st operandId = Some (s1, r1)" by blast
  show ?case
  proof (cases r1)
    case (Inl e)
    with Cons.prems r1 r1' show ?thesis by simp
  next
    case (Inr val)
    show ?thesis
    proof (cases "manifold val = None")
      case True
      with Cons.prems r1 r1' Inr show ?thesis by simp
    next
      case False
      with Cons.prems r1 Inr have "computeOperands rec s1 rest (acc @ [val]) = Some x" by simp
      then have "computeOperands rec' s1 rest (acc @ [val]) = Some x" by (rule Cons.IH)
      with r1' Inr False show ?thesis by auto
    qed
  qed
qed

lemma computeBoolean_mono:
  assumes le: "\<forall>s i r. rec s i = Some r \<longrightarrow> rec' s i = Some r"
    and b: "computeBoolean rec k st operation operandIds = Some x"
  shows "computeBoolean rec' k st operation operandIds = Some x"
proof (cases "length operandIds < 2")
  case True
  with b show ?thesis by (simp add: computeBoolean_def)
next
  case False
  with b obtain y where y: "computeOperands rec st operandIds [] = Some y"
    by (auto simp: computeBoolean_def split: option.splits)
  then have "computeOperands rec' st operandIds [] = Some y"
    by (rule computeOperands_mono[OF le])
  with y b False show ?thesis by (simp add: computeBoolean_def)
qed

lemma handleTarget_mono:
  assumes le: "\<forall>s i r. rec s i = Some r \<longrightarrow> rec' s i = Some r"
    and h: "handleTarget rec k st params result = Some x"
  shows "handleTarget rec' k st params result = Some x"
proof (cases "booleanOp params")
  case None
  with h show ?thesis by (simp add: handleTarget_def)
next
  case op: (Some operation)
  show ?thesis
  proof (cases "targetBodyId params")
    case None
    with h op show ?thesis by (simp add: handleTarget_def)
  next
    case (Some target)
    show ?thesis
    proof (cases "target = []")
      case True
      with h op Some show ?thesis by (simp add: handleTarget_def)
    next
      case False
      with h op Some obtain p where p: "rec st target = Some p"
        by (auto simp: handleTarget_def split: option.splits)
      with le have "rec' st target = Some p" by blast
      with h op Some False p show ?thesis by (simp add: handleTarget_def)
    qed
  qed
qed

lemma computeExtrude_mono:
  assumes le: "\<forall>s i r. rec s i = Some r \<longrightarrow> rec' s i = Some r"
    and e: "computeExtrude rec k nodes st params = Some x"
  shows "computeExtrude rec' k nodes st params = Some x"
proof (cases "getSketch nodes (sketchId params)")
  case None
  with e show ?thesis by (simp add: computeExtrude_def)
next
  case (Some profiles)
  let ?rs = "extrudeProfiles k (distance params) (direction params) profiles []"
  show ?thesis
  proof (cases "profiles = [] \<or> ?rs = []")
    case True
    with e Some show ?thesis by (auto simp: computeExtrude_def Let_def)
  next
    case False
    with e Some have "handleTarget rec k st params (unionAll k (hd ?rs) (tl ?rs)) = Some x"
      by (simp add: computeExtrude_def Let_def)
    then have "handleTarget rec' k st params (unionAll k (hd ?rs) (tl ?rs)) = Some x"
      by (rule handleTarget_mono[OF le])
    with Some False show ?thesis by (simp add: computeExtrude_def Let_def)
  qed
qed

lemma dispatch_mono:
  assumes le: "\<forall>s i r. rec s i = Some r \<longrightarrow> rec' s i = Some r"
    and d: "dispatch rec k nodes st node = Some x"
  shows "dispatch rec' k nodes st node = Some x"
proof (cases node)
  case (Boolean operation operandIds)
  with d have "computeBoolean rec k st operation operandIds = Some x" by (simp add: dispatch_def)
  then have "computeBoolean rec' k st operation operandIds = Some x"
    by (rule computeBoolean_mono[OF le])
  with Boolean show ?thesis by (simp add: dispatch_def)
next
  case (Extrude params)
  with d have "computeExtrude rec k nodes st params = Some x" by (simp add: dispatch_def)
  then have "computeExtrude rec' k nodes st params = Some x"
    by (rule computeExtrude_mono[OF le])
  with Extrude show ?thesis by (simp add: dispatch_def)
qed (use d in \<open>simp_all add: dispatch_def\<close>)

lemma compute_Suc:
  "compute n k nodes st nodeId = Some x \<Longrightarrow> compute (Suc n) k nodes st nodeId = Some x"
proof (induction n arbitrary: st nodeId x)
  case 0
  then show ?case by simp
next
  case (Suc n)
  have le: "\<forall>s i r. compute n k nodes s i = Some r \<longrightarrow> compute (Suc n) k nodes s i = Some r"
    using Suc.IH by blast
  show ?case
  proof (cases "if \<not> initialized st then initialize k st else Inr st")
    case (Inl e)
    with Suc.prems show ?thesis by simp
  next
    case (Inr st1)
    show ?thesis
    proof (cases "nodeId \<in> computing st1")
      case True
      with Suc.prems Inr show ?thesis by simp
    next
      case notin: False
      show ?thesis
      proof (cases "map_of nodes nodeId")
        case None
        with Suc.prems Inr notin show ?thesis by simp
      next
        case (Some node)
        show ?thesis
        proof (cases "cacheHit st1 nodeId")
          case hit: (Some cached)
          with Suc.prems Inr notin Some show ?thesis by simp
        next
          case miss: None
          let ?st2 = "st1\<lparr>computing := insert nodeId (computing st1)\<rparr>"
          from Suc.prems Inr notin Some miss obtain p where
            d: "dispatch (compute n k nodes) k nodes ?st2 node = Some p"
            by (auto split: option.splits)
          then have d': "dispatch (compute (Suc n) k nodes) k nodes ?st2 node = Some p"
            by (rule dispatch_mono[OF le])
          have a: "compute (Suc n) k nodes st nodeId = Some (finish nodeId (fst p) (snd p))"
            using Inr notin Some miss d by (simp add: case_prod_unfold)
          have b: "compute (Suc (Suc n)) k nodes st nodeId = Some (finish nodeId (fst p) (snd p))"
            using Inr notin Some miss d' by (simp add: case_prod_unfold)
          from a b Suc.prems show ?thesis by simp
        qed
      qed
    qed
  qed
qed

lemma compute_fuel_independent:
  assumes "compute n k nodes st nodeId = Some x" and "compute m k nodes st nodeId = Some y"
  shows "x = y"
proof -
  have up: "compute (n + d) k nodes st nodeId = Some x" for d
  proof (induction d)
    case 0
    then show ?case using assms(1) by simp
  next
    case (Suc d)
    then have "compute (Suc (n + d)) k nodes st nodeId = Some x" by (rule compute_Suc)
    then show ?case by (simp only: add_Suc_right)
  qed
  have up': "compute (m + d) k nodes st nodeId = Some y" for d
  proof (induction d)
    case 0
    then show ?case using assms(2) by simp
  next
    case (Suc d)
    then have "compute (Suc (m + d)) k nodes st nodeId = Some y" by (rule compute_Suc)
    then show ?case by (simp only: add_Suc_right)
  qed
  from up[of m] up'[of n] show ?thesis by (simp add: add.commute)
qed

subsection \<open>The profile loops and the union loop\<close>

lemma extrudeProfiles_map_filter:
  "extrudeProfiles k dst dir profiles acc = acc @ List.map_filter (prismOf k dst dir) profiles"
proof (induction profiles arbitrary: acc)
  case Nil
  then show ?case by (simp add: List.map_filter_simps)
next
  case (Cons profile rest)
  obtain h z where hz: "heightAndOffset dir dst = (h, z)" by (cases "heightAndOffset dir dst")
  have step: "prismOf k dst dir profile =
      (case extrude k profile h of Inl _ \<Rightarrow> None
       | Inr solid \<Rightarrow> Some (if z \<noteq> 0 then (case translate k solid (0, 0, z) of
                                    Inl _ \<Rightarrow> solid | Inr v \<Rightarrow> v) else solid))"
    by (simp add: prismOf_def hz split: sum.splits)
  show ?case
  proof (cases "extrude k profile h")
    case (Inl e)
    then show ?thesis by (simp add: Cons.IH List.map_filter_simps step hz)
  next
    case (Inr solid)
    then show ?thesis by (simp add: Cons.IH List.map_filter_simps step hz)
  qed
qed

lemma revolveProfiles_map_filter:
  "revolveProfiles k ang profiles acc = acc @ List.map_filter (revolutionOf k ang) profiles"
proof (induction profiles arbitrary: acc)
  case Nil
  then show ?case by (simp add: List.map_filter_simps)
next
  case (Cons profile rest)
  then show ?case
    by (cases "revolve k profile ang") (simp_all add: List.map_filter_simps revolutionOf_def)
qed

lemma unionAll_foldl: "unionAll k acc solids = foldl (tryUnion k) acc solids"
proof (induction solids arbitrary: acc)
  case Nil
  then show ?case by simp
next
  case (Cons s rest)
  then show ?case by (cases "union k acc s") (simp_all add: tryUnion_def)
qed

lemma map_filter_empty_iff: "List.map_filter f xs = [] \<longleftrightarrow> (\<forall>x \<in> set xs. f x = None)"
  by (induction xs) (auto simp: List.map_filter_simps split: option.splits)

subsection \<open>Extrude: height and offset\<close>

text \<open>What one profile contributes, with the height and the offset of each mode written out.\<close>

lemma prismOf_by_mode:
  "prismOf k d dir profile =
     (case extrude k profile
             (case dir of Normal \<Rightarrow> d | Both \<Rightarrow> 2 * d | Symmetric \<Rightarrow> d) of
        Inl _ \<Rightarrow> None
      | Inr solid \<Rightarrow>
          Some (if (case dir of Normal \<Rightarrow> 0 | Both \<Rightarrow> - d | Symmetric \<Rightarrow> - d / 2) = 0 then solid
                else (case translate k solid
                             (0, 0, case dir of Normal \<Rightarrow> 0 | Both \<Rightarrow> - d | Symmetric \<Rightarrow> - d / 2) of
                        Inl _ \<Rightarrow> solid
                      | Inr v \<Rightarrow> v)))"
  by (cases dir) (simp_all add: prismOf_def heightAndOffset_def mult.commute split: sum.splits)

text \<open>
  \<open>computeExtrude\<close> on a sketch with profiles: every profile is extruded by the height of
  the mode and translated by its offset, and the prisms then go through the union loop
  and the target step.
\<close>

lemma computeExtrude_by_mode:
  assumes "getSketch nodes (sketchId params) = Some profiles" and "profiles \<noteq> []"
  shows "computeExtrude rec k nodes st params =
     (let height = (case direction params of
                      Normal \<Rightarrow> distance params
                    | Both \<Rightarrow> 2 * distance params
                    | Symmetric \<Rightarrow> distance params);
          offsetZ = (case direction params of
                       Normal \<Rightarrow> 0
                     | Both \<Rightarrow> - distance params
                     | Symmetric \<Rightarrow> - distance params / 2);
          prisms = List.map_filter
                     (\<lambda>profile.
                        case extrude k profile height of
                          Inl _ \<Rightarrow> None
                        | Inr solid \<Rightarrow>
                            Some (if offsetZ = 0 then solid
                                  else (case translate k solid (0, 0, offsetZ) of
                                          Inl _ \<Rightarrow> solid
                                        | Inr v \<Rightarrow> v)))
                     profiles
      in if prisms = [] then Some (st, Inr (createEmptyGeometry ''Extrusion failed''))
         else handleTarget rec k st params (unionAll k (hd prisms) (tl prisms)))"
  using assms
proof -
  have "prismOf k (distance params) (direction params) =
      (\<lambda>profile.
         case extrude k profile
                (case direction params of
                   Normal \<Rightarrow> distance params
                 | Both \<Rightarrow> 2 * distance params
                 | Symmetric \<Rightarrow> distance params) of
           Inl _ \<Rightarrow> None
         | Inr solid \<Rightarrow>
             Some (if (case direction params of
                         Normal \<Rightarrow> 0
                       | Both \<Rightarrow> - distance params
                       | Symmetric \<Rightarrow> - distance params / 2) = 0 then solid
                   else (case translate k solid
                                (0, 0, case direction params of
                                         Normal \<Rightarrow> 0
                                       | Both \<Rightarrow> - distance params
                                       | Symmetric \<Rightarrow> - distance params / 2) of
                           Inl _ \<Rightarrow> solid
                         | Inr v \<Rightarrow> v)))"
    by (rule ext) (rule prismOf_by_mode)
  then show ?thesis
    using assms by (simp add: computeExtrude_def Let_def extrudeProfiles_map_filter)
qed


text \<open>The bounding box of a profile's prism, with a kernel that extrudes from the plane.\<close>

lemma final_prism_box:
  assumes law: "extrudesFromPlane k"
    and pos: "0 \<le> d"
    and hz: "heightAndOffset dir d = (height, offsetZ)"
    and ext: "extrude k profile height = Inr solid"
    and tr: "translate k solid (0, 0, offsetZ) = Inr moved"
  shows "\<exists>box. getBoundingBox k (if offsetZ = 0 then solid else moved) = Inr box \<and>
           zRange box = (case dir of
                           Normal \<Rightarrow> (0, d)
                         | Both \<Rightarrow> (- d, d)
                         | Symmetric \<Rightarrow> (- d / 2, d / 2))"
proof -
  have h0: "0 \<le> height" using hz pos by (cases dir) (simp_all add: heightAndOffset_def)
  from law h0 ext obtain box where
    box: "getBoundingBox k solid = Inr box" and zr: "zRange box = (0, height)"
    unfolding extrudesFromPlane_def by blast
  show ?thesis
  proof (cases "offsetZ = 0")
    case True
    have "zRange box = (case dir of Normal \<Rightarrow> (0, d) | Both \<Rightarrow> (- d, d) | Symmetric \<Rightarrow> (- d / 2, d / 2))"
      using hz True zr by (cases dir) (simp_all add: heightAndOffset_def)
    with box True show ?thesis by simp
  next
    case False
    from law tr box obtain box' where
      box': "getBoundingBox k moved = Inr box'" and
      zr': "zRange box' = (fst (zRange box) + snd (snd (0 :: real, 0 :: real, offsetZ)),
                           snd (zRange box) + snd (snd (0 :: real, 0 :: real, offsetZ)))"
      unfolding extrudesFromPlane_def by blast
    have "zRange box' = (case dir of Normal \<Rightarrow> (0, d) | Both \<Rightarrow> (- d, d) | Symmetric \<Rightarrow> (- d / 2, d / 2))"
      using hz zr zr' by (cases dir) (simp_all add: heightAndOffset_def)
    with box' False show ?thesis by simp
  qed
qed

text \<open>
  \<open>compute\<close> for an extrusion of a single profile as a new body: the entry stored and
  returned holds the translated prism and its bounding box.
\<close>

lemma extrude_node_span:
  assumes node: "map_of nodes nodeId = Some (Extrude params)"
    and ini: "initialized st"
    and free: "nodeId \<notin> computing st"
    and miss: "cacheHit st nodeId = None"
    and sketch: "getSketch nodes (sketchId params) = Some [profile]"
    and new: "booleanOp params = None"
    and pos: "0 \<le> distance params"
    and law: "extrudesFromPlane k"
    and hz: "heightAndOffset (direction params) (distance params) = (height, offsetZ)"
    and ext: "extrude k profile height = Inr solid"
    and tr: "translate k solid (0, 0, offsetZ) = Inr moved"
    and mesh: "extractMesh k (if offsetZ = 0 then solid else moved) = Inr mesh"
    and buf: "bufferGeometry k mesh = Inr three"
  shows "\<exists>st' geometry box.
           compute (Suc n) k nodes st nodeId = Some (st', Inr geometry) \<and>
           cache st' nodeId = Some geometry \<and>
           manifold geometry = Some (if offsetZ = 0 then solid else moved) \<and>
           bounds geometry = Some box \<and>
           zRange box = (case direction params of
                           Normal \<Rightarrow> (0, distance params)
                         | Both \<Rightarrow> (- distance params, distance params)
                         | Symmetric \<Rightarrow> (- distance params / 2, distance params / 2))"
proof -
  define final where "final = (if offsetZ = 0 then solid else moved)"
  define st0 where "st0 = st\<lparr>computing := insert nodeId (computing st)\<rparr>"
  from final_prism_box [OF law pos hz ext tr] obtain box where
    box: "getBoundingBox k final = Inr box" and
    zr: "zRange box = (case direction params of
                           Normal \<Rightarrow> (0, distance params)
                         | Both \<Rightarrow> (- distance params, distance params)
                         | Symmetric \<Rightarrow> (- distance params / 2, distance params / 2))"
    unfolding final_def by blast
  define geometry where "geometry =
     \<lparr>manifold = Some final, threeGeometry = Some three, meshData = Some mesh,
      topology = (case extractTopology k final of Inl _ \<Rightarrow> None | Inr t \<Rightarrow> Some t),
      bounds = Some box, dirty = False, error = None\<rparr>"
  have loop: "extrudeProfiles k (distance params) (direction params) [profile] [] = [final]"
    using hz ext tr by (simp add: final_def)
  have m2g: "manifoldToGeometry k final = Inr geometry"
    using mesh buf box by (simp add: manifoldToGeometry_def geometry_def final_def)
  have "computeExtrude (compute n k nodes) k nodes st0 params = Some (st0, Inr geometry)"
    using sketch loop new m2g by (simp add: computeExtrude_def handleTarget_def)
  then have "compute (Suc n) k nodes st nodeId = Some (finish nodeId st0 (Inr geometry))"
    using node ini free miss by (simp add: dispatch_def st0_def)
  then have c: "compute (Suc n) k nodes st nodeId =
      Some (st0\<lparr>cache := (cache st0)(nodeId \<mapsto> geometry), computing := computing st0 - {nodeId}\<rparr>,
            Inr geometry)"
    by (simp add: finish_def)
  have "cache (st0\<lparr>cache := (cache st0)(nodeId \<mapsto> geometry), computing := computing st0 - {nodeId}\<rparr>)
          nodeId = Some geometry" by simp
  moreover have "manifold geometry = Some final" by (simp add: geometry_def)
  moreover have "bounds geometry = Some box" by (simp add: geometry_def)
  ultimately show ?thesis using c zr unfolding final_def by blast
qed


text \<open>
  C3. For every extrude node, the prism height and the offset along the axis are
  \<open>(distance, 0)\<close> for \<open>'normal'\<close>, \<open>(2 \<times> distance, -distance)\<close> for \<open>'both'\<close> and
  \<open>(distance, -distance / 2)\<close> for \<open>'symmetric'\<close>: with any kernel, \<open>computeExtrude\<close>
  extrudes every profile of the sketch by that height and, when the offset is not zero,
  translates the prism by that offset along the axis, before the union and the target
  steps. Consequently, with a kernel that extrudes from the sketch plane and whose
  operations succeed, the geometry that \<open>compute\<close> stores and returns for an extrusion of
  one profile as a new body by a distance that is not negative has a bounding box from
  \<open>-distance / 2\<close> to \<open>distance / 2\<close> along the axis for \<open>'symmetric'\<close>, from \<open>-distance\<close>
  to \<open>distance\<close> for \<open>'both'\<close> and from \<open>0\<close> to \<open>distance\<close> for \<open>'normal'\<close>: with the
  distance 10 the span is \<open>[-5, 5]\<close> for \<open>'symmetric'\<close> and \<open>[-10, 10]\<close> for \<open>'both'\<close>.
\<close>

theorem extrude_height_and_offset:
  "heightAndOffset Normal d = (d, 0) \<and>
   heightAndOffset Both d = (2 * d, - d) \<and>
   heightAndOffset Symmetric d = (d, - d / 2) \<and>
   (getSketch nodes (sketchId params) = Some profiles \<and> profiles \<noteq> [] \<longrightarrow>
      computeExtrude rec k nodes st params =
        (let height = (case direction params of
                         Normal \<Rightarrow> distance params
                       | Both \<Rightarrow> 2 * distance params
                       | Symmetric \<Rightarrow> distance params);
             offsetZ = (case direction params of
                          Normal \<Rightarrow> 0
                        | Both \<Rightarrow> - distance params
                        | Symmetric \<Rightarrow> - distance params / 2);
             prisms = List.map_filter
                        (\<lambda>profile.
                           case extrude k profile height of
                             Inl _ \<Rightarrow> None
                           | Inr solid \<Rightarrow>
                               Some (if offsetZ = 0 then solid
                                     else (case translate k solid (0, 0, offsetZ) of
                                             Inl _ \<Rightarrow> solid
                                           | Inr v \<Rightarrow> v)))
                        profiles
         in if prisms = [] then Some (st, Inr (createEmptyGeometry ''Extrusion failed''))
            else handleTarget rec k st params (unionAll k (hd prisms) (tl prisms)))) \<and>
   (map_of nodes nodeId = Some (Extrude params) \<and>
    initialized st \<and> nodeId \<notin> computing st \<and> cacheHit st nodeId = None \<and>
    getSketch nodes (sketchId params) = Some [profile] \<and>
    booleanOp params = None \<and> 0 \<le> distance params \<and>
    extrudesFromPlane k \<and>
    heightAndOffset (direction params) (distance params) = (height, offsetZ) \<and>
    extrude k profile height = Inr solid \<and>
    translate k solid (0, 0, offsetZ) = Inr moved \<and>
    extractMesh k (if offsetZ = 0 then solid else moved) = Inr mesh \<and>
    bufferGeometry k mesh = Inr three \<longrightarrow>
      (\<exists>st' geometry box.
         compute (Suc n) k nodes st nodeId = Some (st', Inr geometry) \<and>
         cache st' nodeId = Some geometry \<and>
         manifold geometry = Some (if offsetZ = 0 then solid else moved) \<and>
         bounds geometry = Some box \<and>
         zRange box = (case direction params of
                         Normal \<Rightarrow> (0, distance params)
                       | Both \<Rightarrow> (- distance params, distance params)
                       | Symmetric \<Rightarrow> (- distance params / 2, distance params / 2)) \<and>
         (direction params = Symmetric \<and> distance params = 10 \<longrightarrow> zRange box = (- 5, 5)) \<and>
         (direction params = Both \<and> distance params = 10 \<longrightarrow> zRange box = (- 10, 10))))"
proof (intro conjI impI)
  show "heightAndOffset Normal d = (d, 0)" by (simp add: heightAndOffset_def)
  show "heightAndOffset Both d = (2 * d, - d)" by (simp add: heightAndOffset_def)
  show "heightAndOffset Symmetric d = (d, - d / 2)" by (simp add: heightAndOffset_def)
next
  assume "getSketch nodes (sketchId params) = Some profiles \<and> profiles \<noteq> []"
  then show "computeExtrude rec k nodes st params =
        (let height = (case direction params of
                         Normal \<Rightarrow> distance params
                       | Both \<Rightarrow> 2 * distance params
                       | Symmetric \<Rightarrow> distance params);
             offsetZ = (case direction params of
                          Normal \<Rightarrow> 0
                        | Both \<Rightarrow> - distance params
                        | Symmetric \<Rightarrow> - distance params / 2);
             prisms = List.map_filter
                        (\<lambda>profile.
                           case extrude k profile height of
                             Inl _ \<Rightarrow> None
                           | Inr solid \<Rightarrow>
                               Some (if offsetZ = 0 then solid
                                     else (case translate k solid (0, 0, offsetZ) of
                                             Inl _ \<Rightarrow> solid
                                           | Inr v \<Rightarrow> v)))
                        profiles
         in if prisms = [] then Some (st, Inr (createEmptyGeometry ''Extrusion failed''))
            else handleTarget rec k st params (unionAll k (hd prisms) (tl prisms)))"
    using computeExtrude_by_mode [of nodes params profiles rec k st] by blast
next
  assume a: "map_of nodes nodeId = Some (Extrude params) \<and>
    initialized st \<and> nodeId \<notin> computing st \<and> cacheHit st nodeId = None \<and>
    getSketch nodes (sketchId params) = Some [profile] \<and>
    booleanOp params = None \<and> 0 \<le> distance params \<and>
    extrudesFromPlane k \<and>
    heightAndOffset (direction params) (distance params) = (height, offsetZ) \<and>
    extrude k profile height = Inr solid \<and>
    translate k solid (0, 0, offsetZ) = Inr moved \<and>
    extractMesh k (if offsetZ = 0 then solid else moved) = Inr mesh \<and>
    bufferGeometry k mesh = Inr three"
  have "\<exists>st' geometry box.
           compute (Suc n) k nodes st nodeId = Some (st', Inr geometry) \<and>
           cache st' nodeId = Some geometry \<and>
           manifold geometry = Some (if offsetZ = 0 then solid else moved) \<and>
           bounds geometry = Some box \<and>
           zRange box = (case direction params of
                           Normal \<Rightarrow> (0, distance params)
                         | Both \<Rightarrow> (- distance params, distance params)
                         | Symmetric \<Rightarrow> (- distance params / 2, distance params / 2))"
    by (rule extrude_node_span [of nodes nodeId params st profile k height offsetZ solid moved mesh three])
       (insert a, blast)+
  then obtain st' geometry box where
    r: "compute (Suc n) k nodes st nodeId = Some (st', Inr geometry)"
       "cache st' nodeId = Some geometry"
       "manifold geometry = Some (if offsetZ = 0 then solid else moved)"
       "bounds geometry = Some box" and
    zr: "zRange box = (case direction params of
                           Normal \<Rightarrow> (0, distance params)
                         | Both \<Rightarrow> (- distance params, distance params)
                         | Symmetric \<Rightarrow> (- distance params / 2, distance params / 2))"
    by blast
  have s: "direction params = Symmetric \<and> distance params = 10 \<longrightarrow> zRange box = (- 5, 5)"
    using zr by simp
  have b: "direction params = Both \<and> distance params = 10 \<longrightarrow> zRange box = (- 10, 10)"
    using zr by simp
  from r zr s b
  show "\<exists>st' geometry box.
         compute (Suc n) k nodes st nodeId = Some (st', Inr geometry) \<and>
         cache st' nodeId = Some geometry \<and>
         manifold geometry = Some (if offsetZ = 0 then solid else moved) \<and>
         bounds geometry = Some box \<and>
         zRange box = (case direction params of
                         Normal \<Rightarrow> (0, distance params)
                       | Both \<Rightarrow> (- distance params, distance params)
                       | Symmetric \<Rightarrow> (- distance params / 2, distance params / 2)) \<and>
         (direction params = Symmetric \<and> distance params = 10 \<longrightarrow> zRange box = (- 5, 5)) \<and>
         (direction params = Both \<and> distance params = 10 \<longrightarrow> zRange box = (- 10, 10))"
    by blast
qed


lemma spanKernel_extrudesFromPlane: "extrudesFromPlane spanKernel"
  by (auto simp: extrudesFromPlane_def spanKernel_def zRange_def split: if_splits)

lemma symmetric_computed:
  "compute (Suc 0) spanKernel spanNodes readyState ''symmetric'' =
     Some (readyState\<lparr>cache := [''symmetric'' \<mapsto> prismGeometry (- 5) 5]\<rparr>,
           Inr (prismGeometry (- 5) 5))"
  by (simp add: readyState_def spanNodes_def dispatch_def cacheHit_def finish_def
        computeExtrude_def getSketch_def padParams_def heightAndOffset_def handleTarget_def
        manifoldToGeometry_def spanKernel_def squareProfile_def prismGeometry_def emptyMesh_def)

lemma both_computed:
  "compute (Suc 0) spanKernel spanNodes readyState ''both'' =
     Some (readyState\<lparr>cache := [''both'' \<mapsto> prismGeometry (- 10) 10]\<rparr>,
           Inr (prismGeometry (- 10) 10))"
  by (simp add: readyState_def spanNodes_def dispatch_def cacheHit_def finish_def
        computeExtrude_def getSketch_def bothParams_def heightAndOffset_def handleTarget_def
        manifoldToGeometry_def spanKernel_def squareProfile_def prismGeometry_def emptyMesh_def)

theorem extrude_height_and_offset_witness:
  "heightAndOffset Normal 10 = (10, 0) \<and>
   heightAndOffset Both 10 = (20, - 10) \<and>
   heightAndOffset Symmetric 10 = (10, - 5) \<and>
   extrudesFromPlane spanKernel \<and>
   compute (Suc 0) spanKernel spanNodes readyState ''symmetric'' =
     Some (readyState\<lparr>cache := [''symmetric'' \<mapsto> prismGeometry (- 5) 5]\<rparr>,
           Inr (prismGeometry (- 5) 5)) \<and>
   (\<exists>box. bounds (prismGeometry (- 5) 5) = Some box \<and> zRange box = (- 5, 5)) \<and>
   compute (Suc 0) spanKernel spanNodes readyState ''both'' =
     Some (readyState\<lparr>cache := [''both'' \<mapsto> prismGeometry (- 10) 10]\<rparr>,
           Inr (prismGeometry (- 10) 10)) \<and>
   (\<exists>box. bounds (prismGeometry (- 10) 10) = Some box \<and> zRange box = (- 10, 10)) \<and>
   computeExtrude (compute 0 spanKernel spanNodes) spanKernel spanNodes readyState padParams =
     Some (readyState, Inr (prismGeometry (- 5) 5))"
proof -
  note t = extrude_height_and_offset
  note table = t [of 10, THEN conjunct1] t [of 10, THEN conjunct2, THEN conjunct1]
    t [of 10, THEN conjunct2, THEN conjunct2, THEN conjunct1]
  note node = t [THEN conjunct2, THEN conjunct2, THEN conjunct2, THEN conjunct1, THEN mp]
  note span = t [THEN conjunct2, THEN conjunct2, THEN conjunct2, THEN conjunct2, THEN mp]
  have hs: "map_of spanNodes ''symmetric'' = Some (Extrude padParams) \<and>
    initialized (readyState :: (real \<times> real) State) \<and>
    ''symmetric'' \<notin> computing (readyState :: (real \<times> real) State) \<and>
    cacheHit (readyState :: (real \<times> real) State) ''symmetric'' = None \<and>
    getSketch spanNodes (sketchId padParams) = Some [squareProfile] \<and>
    booleanOp padParams = None \<and> 0 \<le> distance padParams \<and>
    extrudesFromPlane spanKernel \<and>
    heightAndOffset (direction padParams) (distance padParams) = (10, - 5) \<and>
    extrude spanKernel squareProfile 10 = Inr (0, 10) \<and>
    translate spanKernel (0, 10) (0, 0, - 5) = Inr (- 5, 5) \<and>
    extractMesh spanKernel (if (- 5 :: real) = 0 then (0, 10) else (- 5, 5)) = Inr emptyMesh \<and>
    bufferGeometry spanKernel emptyMesh = Inr (BufferGeometry [] [] [])"
    by (simp add: spanNodes_def readyState_def cacheHit_def getSketch_def padParams_def
          spanKernel_extrudesFromPlane heightAndOffset_def)
       (simp add: spanKernel_def squareProfile_def emptyMesh_def)
  have hb: "map_of spanNodes ''both'' = Some (Extrude bothParams) \<and>
    initialized (readyState :: (real \<times> real) State) \<and>
    ''both'' \<notin> computing (readyState :: (real \<times> real) State) \<and>
    cacheHit (readyState :: (real \<times> real) State) ''both'' = None \<and>
    getSketch spanNodes (sketchId bothParams) = Some [squareProfile] \<and>
    booleanOp bothParams = None \<and> 0 \<le> distance bothParams \<and>
    extrudesFromPlane spanKernel \<and>
    heightAndOffset (direction bothParams) (distance bothParams) = (20, - 10) \<and>
    extrude spanKernel squareProfile 20 = Inr (0, 20) \<and>
    translate spanKernel (0, 20) (0, 0, - 10) = Inr (- 10, 10) \<and>
    extractMesh spanKernel (if (- 10 :: real) = 0 then (0, 20) else (- 10, 10)) = Inr emptyMesh \<and>
    bufferGeometry spanKernel emptyMesh = Inr (BufferGeometry [] [] [])"
    by (simp add: spanNodes_def readyState_def cacheHit_def getSketch_def bothParams_def
          spanKernel_extrudesFromPlane heightAndOffset_def)
       (simp add: spanKernel_def squareProfile_def emptyMesh_def)
  have ds: "direction padParams = Symmetric \<and> distance padParams = 10" by (simp add: padParams_def)
  have db: "direction bothParams = Both \<and> distance bothParams = 10" by (simp add: bothParams_def)
  from span [OF hs, of 0] ds symmetric_computed
  have s: "\<exists>box. bounds (prismGeometry (- 5) 5) = Some box \<and> zRange box = (- 5, 5)"
    by auto
  from span [OF hb, of 0] db both_computed
  have b: "\<exists>box. bounds (prismGeometry (- 10) 10) = Some box \<and> zRange box = (- 10, 10)"
    by auto
  have sk: "getSketch spanNodes (sketchId padParams) = Some [squareProfile] \<and> [squareProfile] \<noteq> []"
    by (simp add: spanNodes_def getSketch_def padParams_def)
  have c: "computeExtrude (compute 0 spanKernel spanNodes) spanKernel spanNodes readyState padParams =
     Some (readyState, Inr (prismGeometry (- 5) 5))"
    using node [OF sk, of "compute 0 spanKernel spanNodes" spanKernel readyState]
    by (simp add: padParams_def List.map_filter_simps handleTarget_def manifoldToGeometry_def
          spanKernel_def squareProfile_def prismGeometry_def emptyMesh_def)
  from table spanKernel_extrudesFromPlane symmetric_computed s both_computed b c
  show ?thesis by simp
qed

subsection \<open>Boolean nodes: the first failing operand\<close>

lemma computeOperands_append:
  "computeOperands rec st (pre @ rest) acc =
     (case computeOperands rec st pre acc of
        None \<Rightarrow> None
      | Some (s, Inl failing) \<Rightarrow> Some (s, Inl failing)
      | Some (s, Inr gs) \<Rightarrow> computeOperands rec s rest gs)"
proof (induction pre arbitrary: st acc)
  case Nil
  then show ?case by simp
next
  case (Cons operandId pre)
  show ?case
  proof (cases "rec st operandId")
    case None
    then show ?thesis by simp
  next
    case (Some p)
    obtain s1 r1 where p: "p = (s1, r1)" by (cases p)
    show ?thesis
    proof (cases r1)
      case (Inl e)
      with Some p show ?thesis by simp
    next
      case (Inr val)
      with Some p show ?thesis by (simp add: Cons.IH)
    qed
  qed
qed

text \<open>
  The three steps of a boolean node: \<open>compute\<close> hands the node to \<open>computeBoolean\<close> and
  stores what it returns; \<open>computeBoolean\<close> rejects fewer than two operands at once;
  otherwise it stops at the first failing operand.
\<close>

lemma compute_boolean_node:
  assumes node: "map_of nodes nodeId = Some (Boolean operation operandIds)"
    and init: "initialized st"
    and free: "nodeId \<notin> computing st"
    and miss: "cacheHit st nodeId = None"
    and body: "computeBoolean (compute n k nodes) k (st\<lparr>computing := insert nodeId (computing st)\<rparr>)
                 operation operandIds = Some (st2, outcome)"
  shows "compute (Suc n) k nodes st nodeId = Some (finish nodeId st2 outcome)"
  using assms by (simp add: dispatch_def)

lemma few_operands:
  assumes "length operandIds < 2"
  shows "computeBoolean rec k st operation operandIds =
           Some (st, Inr (createEmptyGeometry ''Boolean requires at least 2 operands''))"
  using assms by (simp add: computeBoolean_def)

lemma first_failing_operand:
  assumes ids: "operandIds = pre @ failing # post"
    and two: "length operandIds \<ge> 2"
    and before: "computeOperands rec st pre [] = Some (st1, Inr geometries)"
    and call: "rec st1 failing = Some (st2, result)"
    and failed: "operandFailed result"
  shows "computeBoolean rec k st operation operandIds =
           Some (st2, Inr (createEmptyGeometry (''Failed to compute operand: '' @ failing)))"
proof -
  have "computeOperands rec st1 (failing # post) geometries = Some (st2, Inl failing)"
    using call failed by (cases result) (simp_all add: operandFailed_def)
  then have "computeOperands rec st operandIds [] = Some (st2, Inl failing)"
    using before by (simp add: ids computeOperands_append)
  then show ?thesis using two by (simp add: computeBoolean_def)
qed

lemma box_computed:
  "compute (Suc 0) spanKernel exampleNodes readyState ''box'' =
     Some (readyState\<lparr>cache := [''box'' \<mapsto> computePrimitive spanKernel (Primitive Box [20, 20, 20])]\<rparr>,
           Inr (computePrimitive spanKernel (Primitive Box [20, 20, 20])))"
  by (simp add: readyState_def exampleNodes_def dispatch_def cacheHit_def finish_def)

lemma box_has_manifold:
  "manifold (computePrimitive spanKernel (Primitive Box [20, 20, 20])) = Some (0, 1)"
  by (simp add: computePrimitive_def spanKernel_def)

lemma sketch_computed:
  "compute (Suc 0) spanKernel exampleNodes
      (readyState\<lparr>cache := [''box'' \<mapsto> computePrimitive spanKernel (Primitive Box [20, 20, 20])]\<rparr>)
      ''sketch'' =
     Some (readyState\<lparr>cache := [''box'' \<mapsto> computePrimitive spanKernel (Primitive Box [20, 20, 20]),
                                ''sketch'' \<mapsto> createEmptyGeometry ''Unsupported node type: sketch'']\<rparr>,
           Inr (createEmptyGeometry ''Unsupported node type: sketch''))"
  by (simp add: readyState_def exampleNodes_def dispatch_def cacheHit_def finish_def)

lemma cut_operands_from:
  "computeBoolean (compute (Suc 0) spanKernel exampleNodes) spanKernel
       (readyState\<lparr>computing := insert ''cut'' (computing readyState)\<rparr>) Difference
       [''box'', ''sketch'', ''pad''] =
     Some (readyState\<lparr>computing := {''cut''},
                       cache := [''box'' \<mapsto> computePrimitive spanKernel (Primitive Box [20, 20, 20]),
                                 ''sketch'' \<mapsto> createEmptyGeometry ''Unsupported node type: sketch'']\<rparr>,
           Inr (createEmptyGeometry ''Failed to compute operand: sketch''))"
  by (simp add: readyState_def exampleNodes_def dispatch_def computeBoolean_def cacheHit_def
        finish_def box_has_manifold createEmptyGeometry_def)



text \<open>
  C6 (as amended). For every boolean node with at least two operands, the operands are
  computed in list order, each from the state its predecessor left; at the first operand
  whose computation fails the node's result is the error geometry that names this
  operand (the source's text is "Failed to compute operand: " followed by the id), the
  state is the one that operand's computation left, so no later operand is computed,
  and no boolean operation of the kernel enters the result. For a boolean node with
  fewer than two operands no operand is computed: the state is unchanged and the result
  is the error geometry "Boolean requires at least 2 operands". In both cases \<open>compute\<close>
  stores that error geometry as the node's cache entry and returns it.
\<close>

theorem boolean_aborts_at_first_failing_operand:
  "(length operandIds < 2 \<longrightarrow>
      computeBoolean (compute n k nodes) k st operation operandIds =
        Some (st, Inr (createEmptyGeometry ''Boolean requires at least 2 operands''))) \<and>
   (length operandIds \<ge> 2 \<and> operandIds = pre @ failing # post \<and>
    computeOperands (compute n k nodes) st pre [] = Some (st1, Inr geometries) \<and>
    compute n k nodes st1 failing = Some (st2, result) \<and> operandFailed result \<longrightarrow>
      computeBoolean (compute n k nodes) k st operation operandIds =
        Some (st2, Inr (createEmptyGeometry (''Failed to compute operand: '' @ failing)))) \<and>
   (map_of nodes nodeId = Some (Boolean operation operandIds) \<and>
    initialized st0 \<and> nodeId \<notin> computing st0 \<and> cacheHit st0 nodeId = None \<and>
    computeBoolean (compute n k nodes) k (st0\<lparr>computing := insert nodeId (computing st0)\<rparr>)
      operation operandIds = Some (st3, Inr geometry) \<longrightarrow>
      compute (Suc n) k nodes st0 nodeId =
        Some (st3\<lparr>cache := (cache st3)(nodeId \<mapsto> geometry),
                  computing := computing st3 - {nodeId}\<rparr>, Inr geometry))"
proof (intro conjI impI)
  assume "length operandIds < 2"
  then show "computeBoolean (compute n k nodes) k st operation operandIds =
        Some (st, Inr (createEmptyGeometry ''Boolean requires at least 2 operands''))"
    by (rule few_operands)
next
  assume a: "length operandIds \<ge> 2 \<and> operandIds = pre @ failing # post \<and>
    computeOperands (compute n k nodes) st pre [] = Some (st1, Inr geometries) \<and>
    compute n k nodes st1 failing = Some (st2, result) \<and> operandFailed result"
  show "computeBoolean (compute n k nodes) k st operation operandIds =
        Some (st2, Inr (createEmptyGeometry (''Failed to compute operand: '' @ failing)))"
    using a first_failing_operand [of operandIds pre failing post "compute n k nodes" st st1 geometries st2 result]
    by blast
next
  assume a: "map_of nodes nodeId = Some (Boolean operation operandIds) \<and>
    initialized st0 \<and> nodeId \<notin> computing st0 \<and> cacheHit st0 nodeId = None \<and>
    computeBoolean (compute n k nodes) k (st0\<lparr>computing := insert nodeId (computing st0)\<rparr>)
      operation operandIds = Some (st3, Inr geometry)"
  then have "compute (Suc n) k nodes st0 nodeId = Some (finish nodeId st3 (Inr geometry))"
    using compute_boolean_node [of nodes nodeId operation operandIds st0 n k st3 "Inr geometry"] by blast
  then show "compute (Suc n) k nodes st0 nodeId =
        Some (st3\<lparr>cache := (cache st3)(nodeId \<mapsto> geometry),
                  computing := computing st3 - {nodeId}\<rparr>, Inr geometry)"
    by (simp add: finish_def)
qed

theorem boolean_aborts_at_first_failing_operand_witness:
  "computeBoolean (compute (Suc 0) spanKernel exampleNodes) spanKernel readyState Union [''box''] =
     Some (readyState, Inr (createEmptyGeometry ''Boolean requires at least 2 operands'')) \<and>
   computeBoolean (compute (Suc 0) spanKernel exampleNodes) spanKernel readyState Difference
       [''box'', ''sketch'', ''pad''] =
     Some (readyState\<lparr>cache := [''box'' \<mapsto> computePrimitive spanKernel (Primitive Box [20, 20, 20]),
                                ''sketch'' \<mapsto> createEmptyGeometry ''Unsupported node type: sketch'']\<rparr>,
           Inr (createEmptyGeometry ''Failed to compute operand: sketch'')) \<and>
   compute (Suc (Suc 0)) spanKernel exampleNodes readyState ''cut'' =
     Some (readyState\<lparr>cache := [''box'' \<mapsto> computePrimitive spanKernel (Primitive Box [20, 20, 20]),
                                ''sketch'' \<mapsto> createEmptyGeometry ''Unsupported node type: sketch'',
                                ''cut'' \<mapsto> createEmptyGeometry ''Failed to compute operand: sketch'']\<rparr>,
           Inr (createEmptyGeometry ''Failed to compute operand: sketch''))"
proof -
  have one: "length [''box''] < 2" by simp
  have ids: "[''box'', ''sketch'', ''pad''] = [''box''] @ ''sketch'' # [''pad'']" by simp
  have two: "length [''box'', ''sketch'', ''pad''] \<ge> 2" by simp
  have before: "computeOperands (compute (Suc 0) spanKernel exampleNodes) readyState [''box''] [] =
      Some (readyState\<lparr>cache := [''box'' \<mapsto> computePrimitive spanKernel (Primitive Box [20, 20, 20])]\<rparr>,
            Inr [computePrimitive spanKernel (Primitive Box [20, 20, 20])])"
    using box_computed box_has_manifold by simp
  have failed: "operandFailed (Inr (createEmptyGeometry ''Unsupported node type: sketch'')
                    :: (real \<times> real) Result)"
    by (simp add: operandFailed_def createEmptyGeometry_def)
  have node: "map_of exampleNodes ''cut'' = Some (Boolean Difference [''box'', ''sketch'', ''pad''])"
    by (simp add: exampleNodes_def)
  have ini: "initialized (readyState :: (real \<times> real) State)" by (simp add: readyState_def)
  have free: "''cut'' \<notin> computing (readyState :: (real \<times> real) State)" by (simp add: readyState_def)
  have miss: "cacheHit (readyState :: (real \<times> real) State) ''cut'' = None"
    by (simp add: readyState_def cacheHit_def)
  note t1 = boolean_aborts_at_first_failing_operand [THEN conjunct1, THEN mp]
  note t2 = boolean_aborts_at_first_failing_operand [THEN conjunct2, THEN conjunct1, THEN mp]
  note t3 = boolean_aborts_at_first_failing_operand [THEN conjunct2, THEN conjunct2, THEN mp]
  have a: "computeBoolean (compute (Suc 0) spanKernel exampleNodes) spanKernel readyState Union [''box''] =
     Some (readyState, Inr (createEmptyGeometry ''Boolean requires at least 2 operands''))"
    by (rule t1 [OF one])
  have b: "computeBoolean (compute (Suc 0) spanKernel exampleNodes) spanKernel readyState Difference
       [''box'', ''sketch'', ''pad''] =
     Some (readyState\<lparr>cache := [''box'' \<mapsto> computePrimitive spanKernel (Primitive Box [20, 20, 20]),
                                ''sketch'' \<mapsto> createEmptyGeometry ''Unsupported node type: sketch'']\<rparr>,
           Inr (createEmptyGeometry ''Failed to compute operand: sketch''))"
    using t2 [OF conjI [OF two conjI [OF ids conjI [OF before conjI [OF sketch_computed failed]]]]]
    by simp
  have c: "compute (Suc (Suc 0)) spanKernel exampleNodes readyState ''cut'' =
     Some (readyState\<lparr>computing := {''cut''},
                       cache := [''box'' \<mapsto> computePrimitive spanKernel (Primitive Box [20, 20, 20]),
                                 ''sketch'' \<mapsto> createEmptyGeometry ''Unsupported node type: sketch'']\<rparr>
             \<lparr>cache := (cache (readyState\<lparr>computing := {''cut''},
                       cache := [''box'' \<mapsto> computePrimitive spanKernel (Primitive Box [20, 20, 20]),
                                 ''sketch'' \<mapsto> createEmptyGeometry ''Unsupported node type: sketch'']\<rparr>))
                          (''cut'' \<mapsto> createEmptyGeometry ''Failed to compute operand: sketch''),
               computing := computing (readyState\<lparr>computing := {''cut''},
                       cache := [''box'' \<mapsto> computePrimitive spanKernel (Primitive Box [20, 20, 20]),
                                 ''sketch'' \<mapsto> createEmptyGeometry ''Unsupported node type: sketch'']\<rparr>)
                            - {''cut''}\<rparr>,
           Inr (createEmptyGeometry ''Failed to compute operand: sketch''))"
    by (rule t3 [OF conjI [OF node conjI [OF ini conjI [OF free conjI [OF miss cut_operands_from]]]]])
  have d: "readyState\<lparr>computing := {''cut''},
                       cache := [''box'' \<mapsto> computePrimitive spanKernel (Primitive Box [20, 20, 20]),
                                 ''sketch'' \<mapsto> createEmptyGeometry ''Unsupported node type: sketch'']\<rparr>
             \<lparr>cache := (cache (readyState\<lparr>computing := {''cut''},
                       cache := [''box'' \<mapsto> computePrimitive spanKernel (Primitive Box [20, 20, 20]),
                                 ''sketch'' \<mapsto> createEmptyGeometry ''Unsupported node type: sketch'']\<rparr>))
                          (''cut'' \<mapsto> createEmptyGeometry ''Failed to compute operand: sketch''),
               computing := computing (readyState\<lparr>computing := {''cut''},
                       cache := [''box'' \<mapsto> computePrimitive spanKernel (Primitive Box [20, 20, 20]),
                                 ''sketch'' \<mapsto> createEmptyGeometry ''Unsupported node type: sketch'']\<rparr>)
                            - {''cut''}\<rparr>
           = (readyState\<lparr>cache := [''box'' \<mapsto> computePrimitive spanKernel (Primitive Box [20, 20, 20]),
                                ''sketch'' \<mapsto> createEmptyGeometry ''Unsupported node type: sketch'',
                                ''cut'' \<mapsto> createEmptyGeometry ''Failed to compute operand: sketch'']\<rparr>
               :: (real \<times> real) State)"
    by (simp add: readyState_def)
  show ?thesis
    apply (intro conjI)
      apply (rule a)
     apply (rule b)
    apply (rule c [unfolded d])
    done
qed

text \<open>
  The claim as stated fails for a boolean node with a single operand whose computation
  would fail: the node \<open>solo\<close> has the sketch as its only operand, a \<open>compute\<close> of the
  sketch fails, and yet the computation of \<open>solo\<close> computes no operand (the cache gets no
  entry for the sketch) and its error does not name the operand.
\<close>

lemma solo_sketch_fails:
  "compute (Suc 0) spanKernel soloNodes readyState ''sketch'' =
     Some (readyState\<lparr>cache := [''sketch'' \<mapsto> createEmptyGeometry ''Unsupported node type: sketch'']\<rparr>,
           Inr (createEmptyGeometry ''Unsupported node type: sketch''))"
  by (simp add: readyState_def soloNodes_def dispatch_def cacheHit_def finish_def)

theorem one_operand_boolean_computes_no_operand:
  "compute (Suc 0) spanKernel soloNodes readyState ''sketch'' =
     Some (readyState\<lparr>cache := [''sketch'' \<mapsto> createEmptyGeometry ''Unsupported node type: sketch'']\<rparr>,
           Inr (createEmptyGeometry ''Unsupported node type: sketch'')) \<and>
   operandFailed (Inr (createEmptyGeometry ''Unsupported node type: sketch'') :: (real \<times> real) Result) \<and>
   compute (Suc (Suc 0)) spanKernel soloNodes readyState ''solo'' =
     Some (readyState\<lparr>cache := [''solo'' \<mapsto> createEmptyGeometry ''Boolean requires at least 2 operands'']\<rparr>,
           Inr (createEmptyGeometry ''Boolean requires at least 2 operands'')) \<and>
   (createEmptyGeometry ''Boolean requires at least 2 operands'' :: (real \<times> real) ComputedGeometry)
     \<noteq> createEmptyGeometry ''Failed to compute operand: sketch''"
proof -
  have a: "operandFailed (Inr (createEmptyGeometry ''Unsupported node type: sketch'') :: (real \<times> real) Result)"
    by (simp add: operandFailed_def createEmptyGeometry_def)
  have b: "compute (Suc (Suc 0)) spanKernel soloNodes readyState ''solo'' =
     Some (readyState\<lparr>cache := [''solo'' \<mapsto> createEmptyGeometry ''Boolean requires at least 2 operands'']\<rparr>,
           Inr (createEmptyGeometry ''Boolean requires at least 2 operands''))"
    by (simp add: readyState_def soloNodes_def dispatch_def cacheHit_def finish_def computeBoolean_def)
  have c: "(createEmptyGeometry ''Boolean requires at least 2 operands'' :: (real \<times> real) ComputedGeometry)
     \<noteq> createEmptyGeometry ''Failed to compute operand: sketch''"
    by (simp add: createEmptyGeometry_def)
  from solo_sketch_fails a b c show ?thesis by blast
qed


subsection \<open>Concrete runs\<close>

lemma single_computed:
  "compute (Suc 0) spanKernel exampleNodes readyState ''single'' =
     Some (readyState\<lparr>cache := [''single'' \<mapsto> createEmptyGeometry ''Boolean requires at least 2 operands'']\<rparr>,
           Inr (createEmptyGeometry ''Boolean requires at least 2 operands''))"
  by (simp add: readyState_def exampleNodes_def dispatch_def computeBoolean_def cacheHit_def
        finish_def)



theorem compute_stores_entry_witness:
  "compute (Suc 0) spanKernel exampleNodes readyState ''single'' =
     Some (readyState\<lparr>cache := [''single'' \<mapsto> createEmptyGeometry ''Boolean requires at least 2 operands'']\<rparr>,
           Inr (createEmptyGeometry ''Boolean requires at least 2 operands'')) \<and>
   initialized (readyState :: (real \<times> real) State) \<and>
   ''single'' \<notin> computing (readyState :: (real \<times> real) State) \<and>
   map_of exampleNodes ''single'' = Some (Boolean Union [''box'']) \<and>
   cacheHit (readyState :: (real \<times> real) State) ''single'' = None \<and>
   failureEntry (createEmptyGeometry ''Boolean requires at least 2 operands''
                   :: (real \<times> real) ComputedGeometry)"
proof -
  have ini: "initialized (readyState :: (real \<times> real) State) \<or>
             (\<exists>u. engineInit spanKernel = Inr u)"
    by (simp add: readyState_def)
  have notin: "''single'' \<notin> computing (readyState :: (real \<times> real) State)"
    by (simp add: readyState_def)
  have node: "map_of exampleNodes ''single'' = Some (Boolean Union [''box''])"
    by (simp add: exampleNodes_def)
  have miss: "cacheHit (readyState :: (real \<times> real) State) ''single'' = None"
    by (simp add: readyState_def cacheHit_def)
  from compute_stores_entry [OF single_computed ini notin node miss]
  have "failureEntry (createEmptyGeometry ''Boolean requires at least 2 operands''
                   :: (real \<times> real) ComputedGeometry)"
    by (simp add: successEntry_def createEmptyGeometry_def)
  with single_computed notin node miss show ?thesis by (simp add: readyState_def)
qed

text \<open>
  The claim as stated fails: the computation of \<open>single\<close>, a boolean with one operand,
  fails, and the entry it stores has \<open>dirty = false\<close> together with an error.
\<close>

theorem failed_compute_stores_clean_entry:
  "compute (Suc 0) spanKernel exampleNodes readyState ''single'' =
     Some (readyState\<lparr>cache := [''single'' \<mapsto> createEmptyGeometry ''Boolean requires at least 2 operands'']\<rparr>,
           Inr (createEmptyGeometry ''Boolean requires at least 2 operands'')) \<and>
   dirty (createEmptyGeometry ''Boolean requires at least 2 operands''
            :: (real \<times> real) ComputedGeometry) = False \<and>
   error (createEmptyGeometry ''Boolean requires at least 2 operands''
            :: (real \<times> real) ComputedGeometry) = Some ''Boolean requires at least 2 operands''"
  using single_computed by (simp add: createEmptyGeometry_def)

subsection \<open>The re-entrancy guard\<close>

text \<open>
  C5. A \<open>compute\<close> for a node that is in the \<open>computing\<close> set returns an error at once
  (a recursion bound of one is enough, so nothing is computed or queued) and leaves the
  cache and the \<open>computing\<close> set as they were; once the computer is initialized, which it
  is whenever a computation is in progress, the error is the re-entrancy message and
  the whole state is unchanged.
\<close>

theorem reentrant_compute_fails_fast:
  assumes "nodeId \<in> computing st"
  shows "(\<exists>e st'. compute (Suc n) k nodes st nodeId = Some (st', Inl e) \<and>
            cache st' = cache st \<and> computing st' = computing st) \<and>
         (initialized st \<longrightarrow>
            compute (Suc n) k nodes st nodeId = Some (st, Inl ''Already computing this node''))"
proof (cases "initialized st")
  case True
  with assms show ?thesis by simp
next
  case False
  show ?thesis
  proof (cases "engineInit k")
    case (Inl e)
    with False show ?thesis by (simp add: initialize_def)
  next
    case (Inr u)
    with False assms show ?thesis by (simp add: initialize_def)
  qed
qed

theorem reentrant_compute_fails_fast_witness:
  "''loop'' \<in> computing (loopState :: (real \<times> real) State) \<and>
   initialized (loopState :: (real \<times> real) State) \<and>
   compute (Suc 0) spanKernel exampleNodes loopState ''loop'' =
     Some (loopState, Inl ''Already computing this node'')"
proof -
  have a: "''loop'' \<in> computing (loopState :: (real \<times> real) State)"
    by (simp add: loopState_def)
  have b: "initialized (loopState :: (real \<times> real) State)" by (simp add: loopState_def)
  from reentrant_compute_fails_fast [OF a, of 0 spanKernel exampleNodes] a b
  show ?thesis by simp
qed

subsection \<open>The computing set\<close>




text \<open>
  \<open>compute\<close> always returns: a recursion bound above the number of nodes that are not
  being computed is enough.
\<close>

theorem compute_returns:
  assumes "card (fst ` set nodes - computing st) < n"
  shows "\<exists>st' r. compute n k nodes st nodeId = Some (st', r)"
  using compute_returns_aux [OF assms, of k nodeId] by auto

subsection \<open>Extrude and revolve: failures that are skipped\<close>

text \<open>
  C9. In \<open>computeExtrude\<close> and \<open>computeRevolve\<close> the results collected are those of the
  profiles whose kernel call succeeds, in order; a failed translation keeps the
  untranslated prism and a failed union keeps the accumulator. For a sketch with at
  least one profile the node's result is the error "Extrusion failed" ("Revolution
  failed") when every profile fails, and otherwise the geometry of the solid united from
  the profiles that succeeded.
\<close>

theorem profile_failures_are_skipped:
  assumes "getSketch nodes (sketchId ep) = Some profiles"
    and "getSketch nodes (revSketchId rp) = Some profiles"
    and "profiles \<noteq> []"
  shows "extrudeProfiles k (distance ep) (direction ep) profiles [] =
           List.map_filter (prismOf k (distance ep) (direction ep)) profiles \<and>
         revolveProfiles k (angle rp) profiles [] =
           List.map_filter (revolutionOf k (angle rp)) profiles \<and>
         unionAll k acc solids = foldl (tryUnion k) acc solids \<and>
         computeExtrude rec k nodes st ep =
           (if \<forall>p \<in> set profiles. prismOf k (distance ep) (direction ep) p = None
            then Some (st, Inr (createEmptyGeometry ''Extrusion failed''))
            else handleTarget rec k st ep
                   (foldl (tryUnion k)
                      (hd (List.map_filter (prismOf k (distance ep) (direction ep)) profiles))
                      (tl (List.map_filter (prismOf k (distance ep) (direction ep)) profiles)))) \<and>
         computeRevolve k nodes rp =
           (if \<forall>p \<in> set profiles. revolutionOf k (angle rp) p = None
            then Inr (createEmptyGeometry ''Revolution failed'')
            else manifoldToGeometry k
                   (foldl (tryUnion k)
                      (hd (List.map_filter (revolutionOf k (angle rp)) profiles))
                      (tl (List.map_filter (revolutionOf k (angle rp)) profiles))))"
proof -
  have e: "extrudeProfiles k (distance ep) (direction ep) profiles [] =
           List.map_filter (prismOf k (distance ep) (direction ep)) profiles"
    by (simp add: extrudeProfiles_map_filter)
  have r: "revolveProfiles k (angle rp) profiles [] =
           List.map_filter (revolutionOf k (angle rp)) profiles"
    by (simp add: revolveProfiles_map_filter)
  have u: "unionAll k acc solids = foldl (tryUnion k) acc solids"
    by (rule unionAll_foldl)
  have ce: "computeExtrude rec k nodes st ep =
           (if \<forall>p \<in> set profiles. prismOf k (distance ep) (direction ep) p = None
            then Some (st, Inr (createEmptyGeometry ''Extrusion failed''))
            else handleTarget rec k st ep
                   (foldl (tryUnion k)
                      (hd (List.map_filter (prismOf k (distance ep) (direction ep)) profiles))
                      (tl (List.map_filter (prismOf k (distance ep) (direction ep)) profiles))))"
    using assms(1,3)
    by (simp add: computeExtrude_def Let_def e unionAll_foldl map_filter_empty_iff)
  have cr: "computeRevolve k nodes rp =
           (if \<forall>p \<in> set profiles. revolutionOf k (angle rp) p = None
            then Inr (createEmptyGeometry ''Revolution failed'')
            else manifoldToGeometry k
                   (foldl (tryUnion k)
                      (hd (List.map_filter (revolutionOf k (angle rp)) profiles))
                      (tl (List.map_filter (revolutionOf k (angle rp)) profiles))))"
    using assms(2,3)
    by (simp add: computeRevolve_def Let_def r unionAll_foldl map_filter_empty_iff)
  from e r u ce cr show ?thesis by blast
qed

theorem profile_failures_are_skipped_witness:
  "getSketch exampleNodes (sketchId padParams) = Some [squareProfile, degenerateProfile] \<and>
   getSketch exampleNodes (revSketchId spinParams) = Some [squareProfile, degenerateProfile] \<and>
   extrudeProfiles spanKernel (distance padParams) (direction padParams)
       [squareProfile, degenerateProfile] [] = [(- 5, 5)] \<and>
   extrudeProfiles noTranslateKernel (distance padParams) (direction padParams)
       [squareProfile, degenerateProfile] [] = [(0, 10)] \<and>
   revolveProfiles spanKernel (angle spinParams) [squareProfile, degenerateProfile] [] = [(0, 1)] \<and>
   computeExtrude (compute 0 spanKernel exampleNodes) spanKernel exampleNodes readyState padParams =
     Some (readyState, manifoldToGeometry spanKernel (- 5, 5)) \<and>
   computeRevolve spanKernel exampleNodes spinParams = manifoldToGeometry spanKernel (0, 1)"
proof -
  have s1: "getSketch exampleNodes (sketchId padParams) = Some [squareProfile, degenerateProfile]"
    by (simp add: getSketch_def exampleNodes_def padParams_def)
  have s2: "getSketch exampleNodes (revSketchId spinParams) = Some [squareProfile, degenerateProfile]"
    by (simp add: getSketch_def exampleNodes_def spinParams_def)
  have ne: "[squareProfile, degenerateProfile] \<noteq> []" by simp
  have p1: "prismOf spanKernel (distance padParams) (direction padParams) squareProfile = Some (- 5, 5)"
    by (simp add: prismOf_def spanKernel_def padParams_def heightAndOffset_def squareProfile_def)
  have p2: "prismOf spanKernel (distance padParams) (direction padParams) degenerateProfile = None"
    by (simp add: prismOf_def spanKernel_def padParams_def heightAndOffset_def degenerateProfile_def)
  have q1: "prismOf noTranslateKernel (distance padParams) (direction padParams) squareProfile = Some (0, 10)"
    by (simp add: prismOf_def noTranslateKernel_def spanKernel_def padParams_def heightAndOffset_def
          squareProfile_def)
  have q2: "prismOf noTranslateKernel (distance padParams) (direction padParams) degenerateProfile = None"
    by (simp add: prismOf_def noTranslateKernel_def spanKernel_def padParams_def heightAndOffset_def
          degenerateProfile_def)
  have r1: "revolutionOf spanKernel (angle spinParams) squareProfile = Some (0, 1)"
    by (simp add: revolutionOf_def spanKernel_def squareProfile_def)
  have r2: "revolutionOf spanKernel (angle spinParams) degenerateProfile = None"
    by (simp add: revolutionOf_def spanKernel_def degenerateProfile_def)
  have t: "handleTarget (compute 0 spanKernel exampleNodes) spanKernel readyState padParams (- 5, 5) =
           Some (readyState, manifoldToGeometry spanKernel (- 5, 5))"
    by (simp add: handleTarget_def padParams_def)
  from profile_failures_are_skipped [OF s1 s2 ne, of spanKernel _ _ "compute 0 spanKernel exampleNodes" readyState]
    profile_failures_are_skipped [OF s1 s2 ne, of noTranslateKernel]
    s1 s2 p1 p2 q1 q2 r1 r2 t
  show ?thesis by (simp add: List.map_filter_simps)
qed

subsection \<open>Dependency invalidation\<close>

lemma markDirty_markAll: "markDirty c x = markAll {x} c"
  by (auto simp: markDirty_def markAll_def split: option.splits)

lemma markAll_markAll: "markAll A (markAll B c) = markAll (A \<union> B) c"
  by (auto simp: markAll_def fun_eq_iff option.map_comp comp_def split: option.splits)

lemma finite_targets: "finite {t. dependsOn node t}"
  by (cases node) (simp_all add: dependsOn_def)

lemma finite_refRel: "finite (refRel nodes)"
proof -
  have "refRel nodes \<subseteq> fst ` set nodes \<times> (\<Union>p \<in> set nodes. {t. dependsOn (snd p) t})"
    by (force simp: refRel_def)
  moreover have "finite (fst ` set nodes \<times> (\<Union>p \<in> set nodes. {t. dependsOn (snd p) t}))"
    using finite_targets by auto
  ultimately show ?thesis by (rule finite_subset)
qed

lemma referrers_unfold:
  "{m. (m, x) \<in> (refRel nodes)\<^sup>*} =
     {x} \<union> (\<Union>y \<in> {y. (y, x) \<in> refRel nodes}. {m. (m, y) \<in> (refRel nodes)\<^sup>*})"
  by (auto elim: rtranclE intro: rtrancl_into_rtrancl)

text \<open>The scan, when every recursive call it makes returns the marked cache.\<close>

lemma scanNodes_marks:
  assumes "\<forall>(nid, node) \<in> set ns. dependsOn node x \<longrightarrow>
             (\<exists>N :: nat. \<forall>n \<ge> N. \<forall>c. f n c nid = Some (markAll (G nid) c))"
  shows "\<exists>N :: nat. \<forall>n \<ge> N. \<forall>c. scanNodes (f n) ns x c =
           Some (markAll (\<Union>p \<in> {p \<in> set ns. dependsOn (snd p) x}. G (fst p)) c)"
  using assms
proof (induction ns)
  case Nil
  show ?case by (auto simp: markAll_def)
next
  case (Cons p ns)
  obtain nid node where p: "p = (nid, node)" by (cases p)
  from Cons.prems have "\<forall>(nid, node) \<in> set ns. dependsOn node x \<longrightarrow>
             (\<exists>N. \<forall>n \<ge> N. \<forall>c. f n c nid = Some (markAll (G nid) c))" by simp
  from Cons.IH[OF this] obtain N1 where N1: "\<forall>n \<ge> N1. \<forall>c. scanNodes (f n) ns x c =
           Some (markAll (\<Union>p \<in> {p \<in> set ns. dependsOn (snd p) x}. G (fst p)) c)" by blast
  show ?case
  proof (cases "dependsOn node x")
    case False
    then have "{q \<in> set (p # ns). dependsOn (snd q) x} = {q \<in> set ns. dependsOn (snd q) x}"
      using p by auto
    with N1 False p show ?thesis by auto
  next
    case True
    with Cons.prems p obtain N2 where N2: "\<forall>n \<ge> N2. \<forall>c. f n c nid = Some (markAll (G nid) c)"
      by auto
    have set_eq: "(\<Union>q \<in> {q \<in> set (p # ns). dependsOn (snd q) x}. G (fst q)) =
          (\<Union>q \<in> {q \<in> set ns. dependsOn (snd q) x}. G (fst q)) \<union> G nid"
      using True p by auto
    have "\<forall>n \<ge> max N1 N2. \<forall>c. scanNodes (f n) (p # ns) x c =
           Some (markAll (\<Union>q \<in> {q \<in> set (p # ns). dependsOn (snd q) x}. G (fst q)) c)"
    proof (intro allI impI)
      fix n c assume n: "max N1 N2 \<le> n"
      then have a: "f n c nid = Some (markAll (G nid) c)" using N2 by simp
      from n have b: "scanNodes (f n) ns x (markAll (G nid) c) =
           Some (markAll (\<Union>p \<in> {p \<in> set ns. dependsOn (snd p) x}. G (fst p)) (markAll (G nid) c))"
        using N1 by simp
      have "scanNodes (f n) (p # ns) x c =
           Some (markAll ((\<Union>q \<in> {q \<in> set ns. dependsOn (snd q) x}. G (fst q)) \<union> G nid) c)"
        using True a b by (simp add: p markAll_markAll)
      then show "scanNodes (f n) (p # ns) x c =
           Some (markAll (\<Union>q \<in> {q \<in> set (p # ns). dependsOn (snd q) x}. G (fst q)) c)"
        by (simp only: set_eq)
    qed
    then show ?thesis by blast
  qed
qed

lemma dependents_image:
  "(\<Union>p \<in> {p \<in> set nodes. dependsOn (snd p) x}. G (fst p)) =
   (\<Union>y \<in> {y. (y, x) \<in> refRel nodes}. G y)"
  by (force simp: refRel_def)

lemma markDirtyWithDependents_marks:
  assumes "acyclic (refRel nodes)"
  shows "\<exists>N. \<forall>n \<ge> N. \<forall>c :: string \<rightharpoonup> 'm ComputedGeometry.
           markDirtyWithDependents n nodes c x =
           Some (markAll {m. (m, x) \<in> (refRel nodes)\<^sup>*} c)"
proof -
  have "wf (refRel nodes)" using finite_refRel assms by (rule finite_acyclic_wf)
  then show ?thesis
  proof (induction x rule: wf_induct_rule)
    case (less x)
    let ?G = "\<lambda>y. {m. (m, y) \<in> (refRel nodes)\<^sup>*}"
    have "\<forall>(nid, node) \<in> set nodes. dependsOn node x \<longrightarrow>
             (\<exists>N. \<forall>n \<ge> N. \<forall>c :: string \<rightharpoonup> 'm ComputedGeometry.
                 markDirtyWithDependents n nodes c nid = Some (markAll (?G nid) c))"
    proof (clarify)
      fix nid node assume "(nid, node) \<in> set nodes" "dependsOn node x"
      then have "(nid, x) \<in> refRel nodes" by (auto simp: refRel_def)
      then show "\<exists>N. \<forall>n \<ge> N. \<forall>c :: string \<rightharpoonup> 'm ComputedGeometry.
                 markDirtyWithDependents n nodes c nid = Some (markAll (?G nid) c)"
        using less.IH[of nid] by blast
    qed
    from scanNodes_marks[where f = "\<lambda>n. markDirtyWithDependents n nodes" and G = ?G, OF this]
    obtain N where N: "\<forall>n \<ge> N. \<forall>c :: string \<rightharpoonup> 'm ComputedGeometry.
           scanNodes (markDirtyWithDependents n nodes) nodes x c =
           Some (markAll (\<Union>y \<in> {y. (y, x) \<in> refRel nodes}. ?G y) c)"
      unfolding dependents_image[where G = ?G and nodes = nodes and x = x] by blast
    have "\<forall>n \<ge> Suc N. \<forall>c :: string \<rightharpoonup> 'm ComputedGeometry.
            markDirtyWithDependents n nodes c x = Some (markAll (?G x) c)"
    proof (intro allI impI)
      fix n and c :: "string \<rightharpoonup> 'm ComputedGeometry" assume "Suc N \<le> n"
      then obtain n' where n': "n = Suc n'" "N \<le> n'" by (cases n) auto
      have "markAll (\<Union>y \<in> {y. (y, x) \<in> refRel nodes}. ?G y) (markAll {x} c) = markAll (?G x) c"
        unfolding markAll_markAll referrers_unfold[of x nodes] by (simp add: Un_commute)
      with N n' show "markDirtyWithDependents n nodes c x = Some (markAll (?G x) c)"
        by (simp add: markDirty_markAll)
    qed
    then show ?case by blast
  qed
qed

text \<open>
  C4. For every acyclic node graph, \<open>markDirtyWithDependents\<close> returns (for every
  recursion bound from some bound on), and the cache it leaves is the cache it found
  with the entry of the node and the entries of all nodes that refer to it, directly or
  through other nodes, by an operand or by a sketch reference, marked dirty; no other
  entry changes.
\<close>

theorem invalidation_reaches_all_referrers:
  assumes "acyclic (refRel nodes)"
  shows "\<exists>N. \<forall>n \<ge> N. \<exists>c'. markDirtyWithDependents n nodes c nodeId = Some c' \<and>
           (\<forall>m. c' m = (if (m, nodeId) \<in> (refRel nodes)\<^sup>*
                         then map_option (\<lambda>g. g\<lparr>dirty := True\<rparr>) (c m)
                         else c m))"
proof -
  from markDirtyWithDependents_marks [OF assms, of nodeId]
  obtain N where N: "\<forall>n \<ge> N. \<forall>c :: string \<rightharpoonup> 'a ComputedGeometry.
      markDirtyWithDependents n nodes c nodeId =
        Some (markAll {m. (m, nodeId) \<in> (refRel nodes)\<^sup>*} c)"
    by blast
  have "\<forall>n \<ge> N. \<exists>c'. markDirtyWithDependents n nodes c nodeId = Some c' \<and>
           (\<forall>m. c' m = (if (m, nodeId) \<in> (refRel nodes)\<^sup>*
                         then map_option (\<lambda>g. g\<lparr>dirty := True\<rparr>) (c m)
                         else c m))"
    using N by (simp add: markAll_def)
  then show ?thesis by blast
qed

lemma dagNodes_acyclic: "acyclic (refRel dagNodes)"
proof -
  let ?rank = "\<lambda>s. if s = ''cut'' then 0 else if s = ''pad'' then 1 else (2 :: nat)"
  have "refRel dagNodes \<subseteq> measure ?rank"
    by (auto simp: refRel_def dagNodes_def dependsOn_def padParams_def)
  then have "wf (refRel dagNodes)" by (rule wf_subset[OF wf_measure])
  then show ?thesis by (rule wf_acyclic)
qed

lemma dag_sketch_invalidated:
  "markDirtyWithDependents (Suc (Suc (Suc 0))) dagNodes dagCache ''sketch'' =
     Some (dagCache(''pad'' \<mapsto> cleanEntry\<lparr>dirty := True\<rparr>, ''cut'' \<mapsto> cleanEntry\<lparr>dirty := True\<rparr>))"
  by (simp add: dagNodes_def dagCache_def dependsOn_def padParams_def markDirty_def)

theorem invalidation_reaches_all_referrers_witness:
  "acyclic (refRel dagNodes) \<and>
   (\<exists>N. \<forall>n \<ge> N. \<exists>c'. markDirtyWithDependents n dagNodes dagCache ''sketch'' = Some c' \<and>
           (\<forall>m. c' m = (if (m, ''sketch'') \<in> (refRel dagNodes)\<^sup>*
                         then map_option (\<lambda>g. g\<lparr>dirty := True\<rparr>) (dagCache m)
                         else dagCache m))) \<and>
   markDirtyWithDependents (Suc (Suc (Suc 0))) dagNodes dagCache ''sketch'' =
     Some (dagCache(''pad'' \<mapsto> cleanEntry\<lparr>dirty := True\<rparr>, ''cut'' \<mapsto> cleanEntry\<lparr>dirty := True\<rparr>))"
  using invalidation_reaches_all_referrers [OF dagNodes_acyclic, of dagCache "''sketch''"]
    dagNodes_acyclic dag_sketch_invalidated
  by blast

text \<open>
  The target body of an extrusion is not among the references followed: invalidating
  \<open>box\<close> leaves the entry of the extrusion \<open>boss\<close>, which is united with it, clean.
\<close>

lemma target_body_is_not_followed:
  "markDirtyWithDependents (Suc 0) bossNodes bossCache ''box'' =
     Some (bossCache(''box'' \<mapsto> cleanEntry\<lparr>dirty := True\<rparr>))"
  by (simp add: bossNodes_def bossCache_def bossParams_def dependsOn_def markDirty_def)

subsection \<open>Signed volume and the outward orientation step\<close>

lemma volumeLoop_acc: "volumeLoop vp tv acc = acc + volumeLoop vp tv 0"
proof (induction tv arbitrary: acc rule: flipAll.induct)
  case (1 i0 i1 i2 rest)
  show ?case
    using "1.IH"[of "acc + tripleProduct vp i0 i1 i2"] "1.IH"[of "tripleProduct vp i0 i1 i2"]
    by simp
qed simp_all

lemma triple_swap:
  fixes x0 y0 z0 x1 y1 z1 x2 y2 z2 :: real
  shows "x0 * (y2 * z1 - z2 * y1) - y0 * (x2 * z1 - z2 * x1) + z0 * (x2 * y1 - y2 * x1) =
         - (x0 * (y1 * z2 - z1 * y2) - y0 * (x1 * z2 - z1 * x2) + z0 * (x1 * y2 - y1 * x2))"
  by (simp add: algebra_simps)

lemma tripleProduct_unfold: "tripleProduct vp i0 i1 i2 =
     vp ! (i0 * 3) * (vp ! (i1 * 3 + 1) * vp ! (i2 * 3 + 2) - vp ! (i1 * 3 + 2) * vp ! (i2 * 3 + 1))
   - vp ! (i0 * 3 + 1) * (vp ! (i1 * 3) * vp ! (i2 * 3 + 2) - vp ! (i1 * 3 + 2) * vp ! (i2 * 3))
   + vp ! (i0 * 3 + 2) * (vp ! (i1 * 3) * vp ! (i2 * 3 + 1) - vp ! (i1 * 3 + 1) * vp ! (i2 * 3))"
  by (simp only: tripleProduct_def Let_def)

lemma tripleProduct_swap: "tripleProduct vp i0 i2 i1 = - tripleProduct vp i0 i1 i2"
  unfolding tripleProduct_unfold by (rule triple_swap)

lemma volumeLoop_flipAll: "volumeLoop vp (flipAll tv) 0 = - volumeLoop vp tv 0"
proof (induction tv rule: flipAll.induct)
  case (1 i0 i1 i2 rest)
  have "volumeLoop vp (flipAll (i0 # i1 # i2 # rest)) 0
          = tripleProduct vp i0 i2 i1 + volumeLoop vp (flipAll rest) 0"
    using volumeLoop_acc[of vp "flipAll rest" "tripleProduct vp i0 i2 i1"] by simp
  also have "\<dots> = - (tripleProduct vp i0 i1 i2 + volumeLoop vp rest 0)"
    using tripleProduct_swap[of vp i0 i1 i2] "1.IH" by simp
  also have "tripleProduct vp i0 i1 i2 + volumeLoop vp rest 0 = volumeLoop vp (i0 # i1 # i2 # rest) 0"
    using volumeLoop_acc[of vp rest "tripleProduct vp i0 i1 i2"] by simp
  finally show ?case .
qed simp_all

lemma signedVolume_flipAll:
  "computeSignedVolume (s\<lparr>triVerts := flipAll (triVerts s)\<rparr>) = - computeSignedVolume s"
  by (simp add: computeSignedVolume_def volumeLoop_flipAll)

lemma manifoldize_triVerts:
  assumes "ready" and "solidDirty s \<or> solidManifold s = None" and "triCount s > 0"
  shows "triVerts (snd (manifoldize ready build s)) =
           (if computeSignedVolume (fixTriangleWindingsByAdjacency s) < 0
            then flipAll (triVerts (fixTriangleWindingsByAdjacency s))
            else triVerts (fixTriangleWindingsByAdjacency s)) \<and>
         vertProperties (snd (manifoldize ready build s)) =
           vertProperties (fixTriangleWindingsByAdjacency s)"
proof -
  have c: "(if \<not> solidDirty s then solidManifold s else None) = None"
    using assms(2) by auto
  show ?thesis
    unfolding manifoldize_def c Let_def using assms(1,3)
    by (simp split: sum.splits)
qed

lemma manifoldize_volume:
  assumes "ready" and "solidDirty s \<or> solidManifold s = None" and "triCount s > 0"
  shows "computeSignedVolume (snd (manifoldize ready build s)) =
           \<bar>computeSignedVolume (fixTriangleWindingsByAdjacency s)\<bar>"
proof -
  let ?s1 = "fixTriangleWindingsByAdjacency s"
  from manifoldize_triVerts[OF assms, of build]
  have "computeSignedVolume (snd (manifoldize ready build s)) =
          (if computeSignedVolume ?s1 < 0
           then computeSignedVolume (?s1\<lparr>triVerts := flipAll (triVerts ?s1)\<rparr>)
           else computeSignedVolume ?s1)"
    by (simp add: computeSignedVolume_def)
  then show ?thesis by (simp add: signedVolume_flipAll)
qed

subsection \<open>Authoring keeps the arrays well-formed\<close>

lemma getPointIndex_wellFormed:
  assumes "length (vertProperties s) mod 3 = 0"
    and "\<forall>i \<in> snd ` set (vertKeyToIndex s). i < length (vertProperties s) div 3"
    and "getPointIndex p s = (i, s')"
  shows "length (vertProperties s') mod 3 = 0 \<and>
         (\<forall>i \<in> snd ` set (vertKeyToIndex s'). i < length (vertProperties s') div 3) \<and>
         i < length (vertProperties s') div 3 \<and>
         length (vertProperties s) div 3 \<le> length (vertProperties s') div 3 \<and>
         triVerts s' = triVerts s"
proof (cases "map_of (vertKeyToIndex s) p")
  case None
  with assms(3) have s': "s' = s\<lparr>vertProperties := vertProperties s @ [fst p, fst (snd p), snd (snd p)],
                      vertKeyToIndex := vertKeyToIndex s @ [(p, length (vertProperties s) div 3)]\<rparr>"
    and i: "i = length (vertProperties s) div 3"
    by (auto simp: getPointIndex_def Let_def)
  have len: "length (vertProperties s') div 3 = Suc (length (vertProperties s) div 3)"
    using assms(1) by (simp add: s')
  have "length (vertProperties s') mod 3 = 0" using assms(1) by (simp add: s')
  moreover have "\<forall>i \<in> snd ` set (vertKeyToIndex s'). i < length (vertProperties s') div 3"
    using assms(2) len by (auto simp: s')
  ultimately show ?thesis using len i by (simp add: s')
next
  case (Some found)
  with assms(3) have s': "s' = s" and i: "i = found" by (simp_all add: getPointIndex_def)
  have "(p, found) \<in> set (vertKeyToIndex s)" using Some by (rule map_of_SomeD)
  then have "found \<in> snd ` set (vertKeyToIndex s)" by force
  with assms(2) have "found < length (vertProperties s) div 3" by blast
  with assms(1,2) s' i show ?thesis by simp
qed

lemma addTriangle_wellFormed:
  assumes wf: "wellFormed s" and add: "addTriangle ready faceName p0 p1 p2 s = Inr s'"
  shows "wellFormed s'"
proof -
  from add obtain fid sa where g: "getOrCreateID ready faceName s = Inr (fid, sa)"
    by (auto simp: addTriangle_def split: sum.splits)
  have sa: "vertProperties sa = vertProperties s \<and> vertKeyToIndex sa = vertKeyToIndex s \<and>
            triVerts sa = triVerts s"
    using g by (auto simp: getOrCreateID_def split: if_splits option.splits)
  obtain i0 sb where b: "getPointIndex p0 sa = (i0, sb)" by (cases "getPointIndex p0 sa")
  obtain i1 sc where c: "getPointIndex p1 sb = (i1, sc)" by (cases "getPointIndex p1 sb")
  obtain i2 sd where d: "getPointIndex p2 sc = (i2, sd)" by (cases "getPointIndex p2 sc")
  have s': "s' = sd\<lparr>triVerts := triVerts sd @ [i0, i1, i2], triIDs := triIDs sd @ [fid],
                     solidDirty := True, faceIndex := None\<rparr>"
    using add g b c d by (simp add: addTriangle_def)
  have fa: "length (vertProperties sa) mod 3 = 0"
    "\<forall>i \<in> snd ` set (vertKeyToIndex sa). i < length (vertProperties sa) div 3"
    using wf sa by (simp_all add: wellFormed_def)
  note fb = getPointIndex_wellFormed[OF fa b]
  note fc = getPointIndex_wellFormed[OF fb[THEN conjunct1] fb[THEN conjunct2, THEN conjunct1] c]
  note fd = getPointIndex_wellFormed[OF fc[THEN conjunct1] fc[THEN conjunct2, THEN conjunct1] d]
  have tv: "triVerts sd = triVerts s" using fb fc fd sa by simp
  have old: "\<forall>i \<in> set (triVerts s). i < length (vertProperties sd) div 3"
    using wf sa fb fc fd by (fastforce simp: wellFormed_def)
  have new: "i0 < length (vertProperties sd) div 3 \<and> i1 < length (vertProperties sd) div 3 \<and>
             i2 < length (vertProperties sd) div 3"
    using fb fc fd by linarith
  have "length (triVerts s') mod 3 = 0" using wf by (simp add: s' tv wellFormed_def)
  moreover have "length (vertProperties s') mod 3 = 0" using fd by (simp add: s')
  moreover have "\<forall>i \<in> set (triVerts s'). i < length (vertProperties s') div 3"
    using old new by (simp add: s' tv)
  moreover have "\<forall>i \<in> snd ` set (vertKeyToIndex s'). i < length (vertProperties s') div 3"
    using fd by (simp add: s')
  ultimately show ?thesis by (simp add: wellFormed_def)
qed

lemma newSolid_wellFormed: "wellFormed newSolid"
  by (simp add: wellFormed_def newSolid_def)

lemma addTriangles_wellFormed: "wellFormed s \<Longrightarrow> wellFormed (addTriangles ts s)"
proof (induction ts arbitrary: s)
  case Nil
  then show ?case by simp
next
  case (Cons t ts)
  obtain faceName p0 p1 p2 where t: "t = (faceName, p0, p1, p2)" by (cases t)
  show ?case
  proof (cases "addTriangle True faceName p0 p1 p2 s")
    case (Inl ex)
    with Cons.prems t show ?thesis by simp
  next
    case (Inr s')
    then have "wellFormed s'" using Cons.prems addTriangle_wellFormed by blast
    then have "wellFormed (addTriangles ts s')" by (rule Cons.IH)
    with Inr t show ?thesis by simp
  qed
qed

subsection \<open>The coherence check\<close>

lemma pushUse_map_fst: "set (map fst (pushUse k e m)) = insert k (set (map fst m))"
proof (induction m)
  case Nil
  then show ?case by simp
next
  case (Cons p m)
  obtain k' es where p: "p = (k', es)" by (cases p)
  show ?case
  proof (cases "k = k'")
    case True
    then show ?thesis by (simp add: p)
  next
    case False
    then have "set (map fst (pushUse k e (p # m))) = insert k' (set (map fst (pushUse k e m)))"
      by (simp add: p)
    also have "\<dots> = insert k' (insert k (set (map fst m)))" by (simp only: Cons.IH)
    finally show ?thesis by (simp add: p insert_commute)
  qed
qed

lemma pushUse_keys: "fst ` set (pushUse k e m) = insert k (fst ` set m)"
  using pushUse_map_fst[of k e m] by simp

lemma pushUse_distinct: "distinct (map fst m) \<Longrightarrow> distinct (map fst (pushUse k e m))"
proof (induction m)
  case Nil
  then show ?case by simp
next
  case (Cons p m)
  obtain k' es where p: "p = (k', es)" by (cases p)
  show ?case
  proof (cases "k = k'")
    case True
    with Cons.prems p show ?thesis by simp
  next
    case False
    have "k' \<notin> fst ` set (pushUse k e m)"
      using Cons.prems p False by (simp add: pushUse_keys)
    with Cons p False show ?thesis by simp
  qed
qed

lemma pushUse_lookup:
  "map_of (pushUse k e m) k' =
     (if k' = k then Some ((case map_of m k of None \<Rightarrow> [] | Some es \<Rightarrow> es) @ [e])
      else map_of m k')"
  by (induction m) auto

lemma pushAll_invariant:
  fixes kf :: "'e \<Rightarrow> nat"
  assumes "distinct (map fst m)"
  shows "distinct (map fst (fold (\<lambda>e m. pushUse (kf e) e m) es m)) \<and>
         fst ` set (fold (\<lambda>e m. pushUse (kf e) e m) es m) = fst ` set m \<union> kf ` set es \<and>
         (\<forall>k. (case map_of (fold (\<lambda>e m. pushUse (kf e) e m) es m) k of None \<Rightarrow> [] | Some us \<Rightarrow> us)
               = (case map_of m k of None \<Rightarrow> [] | Some us \<Rightarrow> us) @ filter (\<lambda>e. kf e = k) es)"
  using assms
proof (induction es arbitrary: m)
  case Nil
  then show ?case by simp
next
  case (Cons e es)
  let ?m = "pushUse (kf e) e m"
  have d: "distinct (map fst ?m)" using Cons.prems by (rule pushUse_distinct)
  from Cons.IH[OF d] show ?case
    by (auto simp: pushUse_keys pushUse_lookup)
qed

lemma list_all_values:
  assumes "distinct (map fst m)"
  shows "list_all P (map snd m) \<longleftrightarrow> (\<forall>k \<in> fst ` set m. P (case map_of m k of None \<Rightarrow> [] | Some us \<Rightarrow> us))"
  using assms
proof (induction m)
  case Nil
  then show ?case by simp
next
  case (Cons p m)
  obtain k v where p: "p = (k, v)" by (cases p)
  have "\<forall>k' \<in> fst ` set m. k' \<noteq> k" using Cons.prems p by auto
  then have "(\<forall>k' \<in> fst ` set m. P (case map_of (p # m) k' of None \<Rightarrow> [] | Some us \<Rightarrow> us))
           = (\<forall>k' \<in> fst ` set m. P (case map_of m k' of None \<Rightarrow> [] | Some us \<Rightarrow> us))"
    using p by auto
  with Cons p show ?case by simp
qed

lemma edgeMapOf_fold:
  "edgeMapOf NV ts =
     fold (\<lambda>e m. pushUse (case e of (a, b) \<Rightarrow> ukey NV a b) e m) (concat (map triEdges ts)) []"
proof -
  have f: "(\<lambda>(a, b) m. pushUse (ukey NV a b) (a, b) m)
           = (\<lambda>e m. pushUse (case e of (a, b) \<Rightarrow> ukey NV a b) e m)"
    by (auto simp: fun_eq_iff)
  have "fold (\<lambda>tri m. fold (\<lambda>e m. pushUse (case e of (a, b) \<Rightarrow> ukey NV a b) e m) (triEdges tri) m) ts m0
        = fold (\<lambda>e m. pushUse (case e of (a, b) \<Rightarrow> ukey NV a b) e m) (concat (map triEdges ts)) m0"
    for m0
    by (induction ts arbitrary: m0) simp_all
  then show ?thesis by (simp add: edgeMapOf_def f)
qed

lemma reversedPair_iff: "reversedPair arr \<longleftrightarrow> (\<exists>c d. arr = [(c, d), (d, c)])"
proof (cases arr)
  case Nil
  then show ?thesis by (simp add: reversedPair_def)
next
  case (Cons e0 r1)
  show ?thesis
  proof (cases r1)
    case Nil
    with Cons show ?thesis by (simp add: reversedPair_def)
  next
    case c2: (Cons e1 r2)
    show ?thesis
    proof (cases r2)
      case Nil
      with Cons c2 show ?thesis by (cases e0; cases e1) (auto simp: reversedPair_def)
    next
      case c3: (Cons e2 r3)
      with Cons c2 show ?thesis by (simp add: reversedPair_def)
    qed
  qed
qed

lemma coherent_iff:
  assumes "triCount s > 0"
  shows "isCoherentlyOrientedManifold s \<longleftrightarrow> everyEdgeTwiceReversed s"
proof -
  let ?kf = "\<lambda>e. case e of (a, b) \<Rightarrow> ukey (keyBase s) a b"
  let ?E = "directedEdges s"
  let ?m = "edgeMapOf (keyBase s) (trisOf (triVerts s))"
  have m: "?m = fold (\<lambda>e m. pushUse (?kf e) e m) ?E []"
    by (simp add: edgeMapOf_fold directedEdges_def)
  have inv: "distinct (map fst ?m) \<and> fst ` set ?m = ?kf ` set ?E \<and>
     (\<forall>k. (case map_of ?m k of None \<Rightarrow> [] | Some us \<Rightarrow> us) = filter (\<lambda>e. ?kf e = k) ?E)"
    unfolding m using pushAll_invariant[of "[]" ?kf ?E] by simp
  have "isCoherentlyOrientedManifold s \<longleftrightarrow> list_all reversedPair (map snd ?m)"
    using assms by (simp add: isCoherentlyOrientedManifold_def)
  also have "\<dots> \<longleftrightarrow> (\<forall>k \<in> ?kf ` set ?E. reversedPair (filter (\<lambda>e. ?kf e = k) ?E))"
    using inv list_all_values[of ?m reversedPair] by simp
  also have "\<dots> \<longleftrightarrow> (\<forall>e \<in> set ?E. reversedPair (usesOf s (?kf e)))"
    by (simp add: usesOf_def case_prod_unfold)
  also have "\<dots> \<longleftrightarrow> everyEdgeTwiceReversed s"
    by (simp add: everyEdgeTwiceReversed_def reversedPair_iff case_prod_unfold)
  finally show ?thesis .
qed

lemma coherent_skips_repair:
  "isCoherentlyOrientedManifold s \<Longrightarrow> fixTriangleWindingsByAdjacency s = s"
  by (simp add: fixTriangleWindingsByAdjacency_def)

text \<open>
  In a well-formed solid every index is below the base of the keys, so two directed
  edges have the same key exactly when they join the same two vertices.
\<close>

lemma key_parts:
  fixes x y x' y' NV :: nat
  assumes "y < NV" "y' < NV" "x * NV + y = x' * NV + y'"
  shows "x = x' \<and> y = y'"
proof -
  have "(x * NV + y) div NV = (x' * NV + y') div NV" using assms(3) by simp
  then have x: "x = x'" using assms(1,2) by simp
  with assms(3) show ?thesis by simp
qed


lemma ukey_min_max: "ukey NV a b = min a b * NV + max a b"
proof (cases "a < b")
  case True
  then have "min a b = a" "max a b = b" by simp_all
  with True show ?thesis by (simp only: ukey_def if_True)
next
  case False
  then have "min a b = b" "max a b = a" by simp_all
  with False show ?thesis by (simp only: ukey_def if_False)
qed

lemma ukey_eq_iff:
  assumes "a < NV" "b < NV" "c < NV" "d < NV"
  shows "ukey NV a b = ukey NV c d \<longleftrightarrow> {a, b} = {c, d}"
proof
  assume eq: "ukey NV a b = ukey NV c d"
  have "max a b < NV" "max c d < NV" using assms by simp_all
  from key_parts[OF this] eq have mm: "min a b = min c d" "max a b = max c d"
    by (simp_all only: ukey_min_max)
  have "{a, b} = {min a b, max a b}" by (cases "a \<le> b") auto
  also have "\<dots> = {min c d, max c d}" by (simp only: mm)
  also have "\<dots> = {c, d}" by (cases "c \<le> d") auto
  finally show "{a, b} = {c, d}" .
next
  assume "{a, b} = {c, d}"
  then have "(a = c \<and> b = d) \<or> (a = d \<and> b = c)" by (simp add: doubleton_eq_iff)
  then show "ukey NV a b = ukey NV c d"
  proof
    assume "a = c \<and> b = d"
    then show ?thesis by simp
  next
    assume "a = d \<and> b = c"
    then show ?thesis by (simp add: ukey_min_max min.commute max.commute)
  qed
qed


lemma directedEdges_indices:
  "(a, b) \<in> set (concat (map triEdges (trisOf tv))) \<Longrightarrow> a \<in> set tv \<and> b \<in> set tv"
proof (induction tv rule: trisOf.induct)
  case (1 i0 i1 i2 rest)
  then show ?case by (auto simp: triEdges_def)
qed simp_all

lemma wellFormed_keys:
  assumes "wellFormed s"
    and "(a, b) \<in> set (directedEdges s)" and "(c, d) \<in> set (directedEdges s)"
  shows "ukey (keyBase s) a b = ukey (keyBase s) c d \<longleftrightarrow> {a, b} = {c, d}"
proof -
  have bound: "i < keyBase s" if "i \<in> set (triVerts s)" for i
  proof -
    from assms(1) that have "i < length (vertProperties s) div 3" by (simp add: wellFormed_def)
    then show ?thesis by (simp add: keyBase_def)
  qed
  have "a \<in> set (triVerts s) \<and> b \<in> set (triVerts s)"
    using assms(2) unfolding directedEdges_def by (rule directedEdges_indices)
  moreover have "c \<in> set (triVerts s) \<and> d \<in> set (triVerts s)"
    using assms(3) unfolding directedEdges_def by (rule directedEdges_indices)
  ultimately have "a \<in> set (triVerts s)" "b \<in> set (triVerts s)"
    "c \<in> set (triVerts s)" "d \<in> set (triVerts s)" by simp_all
  then have "a < keyBase s" "b < keyBase s" "c < keyBase s" "d < keyBase s"
    by (simp_all add: bound)
  then show ?thesis by (rule ukey_eq_iff)
qed

text \<open>
  C7 (as amended). For every authored mesh with at least one triangle, the coherence
  check returns true if and only if every undirected edge key has exactly two directed
  uses and the two are mutual reverses; and whenever the check returns true, the repair
  step returns the solid unchanged, so that the outward-orientation step works on the
  mesh as authored.
\<close>

theorem coherence_check_characterised:
  assumes "triCount s > 0"
  shows "(isCoherentlyOrientedManifold s \<longleftrightarrow> everyEdgeTwiceReversed s) \<and>
         (isCoherentlyOrientedManifold s \<longrightarrow> fixTriangleWindingsByAdjacency s = s)"
  using coherent_iff [OF assms] coherent_skips_repair [of s] by blast

lemma tetSolid_coherent: "isCoherentlyOrientedManifold tetSolid"
  by code_simp

lemma mixedTetSolid_incoherent: "\<not> isCoherentlyOrientedManifold mixedTetSolid"
  by code_simp

theorem coherence_check_characterised_witness:
  "triCount tetSolid > 0 \<and> isCoherentlyOrientedManifold tetSolid \<and>
   everyEdgeTwiceReversed tetSolid \<and> fixTriangleWindingsByAdjacency tetSolid = tetSolid \<and>
   triCount mixedTetSolid > 0 \<and> \<not> isCoherentlyOrientedManifold mixedTetSolid \<and>
   \<not> everyEdgeTwiceReversed mixedTetSolid"
proof -
  have a: "triCount tetSolid > 0" by code_simp
  have b: "triCount mixedTetSolid > 0" by code_simp
  from coherence_check_characterised [OF a] coherence_check_characterised [OF b]
    a b tetSolid_coherent mixedTetSolid_incoherent
  show ?thesis by blast
qed

text \<open>
  The claim as stated fails for a mesh without triangles: no edge key exists, so every
  edge key has its two reversed uses, and yet the check returns false.
\<close>

theorem empty_mesh_is_not_coherent:
  "\<not> isCoherentlyOrientedManifold emptySolid \<and> everyEdgeTwiceReversed emptySolid"
  by (simp add: isCoherentlyOrientedManifold_def triCount_def emptySolid_def newSolid_def
        everyEdgeTwiceReversed_def directedEdges_def)

subsection \<open>The signed volume of the built mesh\<close>

text \<open>
  What the orientation step achieves: the signed volume of the triangle list that is left
  is the absolute value of the signed volume after the adjacency repair.
\<close>

lemma built_volume_is_absolute:
  assumes "ready" and "solidDirty s \<or> solidManifold s = None" and "triCount s > 0"
  shows "computeSignedVolume (snd (manifoldize ready build s)) =
           \<bar>computeSignedVolume (fixTriangleWindingsByAdjacency s)\<bar> \<and>
         computeSignedVolume (snd (manifoldize ready build s)) \<ge> 0"
  using manifoldize_volume [OF assms, of build] by simp

text \<open>
  A tetrahedron with two faces turned over: the repair makes the winding coherent, and
  the built mesh has the positive volume of the tetrahedron.
\<close>

lemma mixedTetSolid_repaired:
  "triVerts mixedTetSolid = [0, 1, 2, 0, 3, 2, 0, 3, 1, 2, 3, 1] \<and>
   triVerts (fixTriangleWindingsByAdjacency mixedTetSolid) = [0, 1, 2, 0, 2, 3, 0, 3, 1, 2, 1, 3]"
  by code_simp

lemma mixedTetSolid_volumes:
  "computeSignedVolume mixedTetSolid = - (1 / 6) \<and>
   computeSignedVolume (fixTriangleWindingsByAdjacency mixedTetSolid) = 1 / 6"
  by code_simp

lemma mixedTetSolid_built_volume:
  "computeSignedVolume (snd (manifoldize True acceptMesh mixedTetSolid)) = 1 / 6"
proof -
  have d: "solidDirty mixedTetSolid \<or> solidManifold mixedTetSolid = None" by code_simp
  have t: "triCount mixedTetSolid > 0" by code_simp
  from manifoldize_volume [OF _ d t, of True acceptMesh] mixedTetSolid_volumes
  show ?thesis by simp
qed

text \<open>
  The solid \<open>twoShellSolid\<close> is a closed 2-manifold triangle soup: its arrays are
  well-formed, and every edge is used exactly twice, once in each direction. Its first
  shell encloses the volume \<open>1/6\<close> and its second shell, wound inward, \<open>-1/6\<close>.
\<close>

lemma twoShellSolid_coherent: "isCoherentlyOrientedManifold twoShellSolid"
  by code_simp

lemma twoShellSolid_volume: "computeSignedVolume twoShellSolid = 0"
  by code_simp

lemma twoShellSolid_closed_manifold:
  "wellFormed twoShellSolid \<and> everyEdgeTwiceReversed twoShellSolid"
proof -
  have t: "triCount twoShellSolid > 0" by code_simp
  have "everyEdgeTwiceReversed twoShellSolid"
    using coherent_iff [OF t] twoShellSolid_coherent by simp
  moreover have "wellFormed twoShellSolid"
    unfolding twoShellSolid_def by (rule addTriangles_wellFormed [OF newSolid_wellFormed])
  ultimately show ?thesis by simp
qed

lemma twoShellSolid_shell_volumes:
  "computeSignedVolume (twoShellSolid\<lparr>triVerts := take 12 (triVerts twoShellSolid)\<rparr>) = 1 / 6 \<and>
   computeSignedVolume (twoShellSolid\<lparr>triVerts := drop 12 (triVerts twoShellSolid)\<rparr>) = - (1 / 6)"
  by code_simp

lemma twoShellSolid_outward_volume:
  "computeSignedVolume
     (twoShellSolid\<lparr>triVerts := take 12 (triVerts twoShellSolid) @
                                  flipAll (drop 12 (triVerts twoShellSolid))\<rparr>) = 1 / 3"
  by code_simp

lemma twoShellSolid_built:
  "fst (manifoldize True acceptMesh twoShellSolid) = Inr 0"
  by code_simp

text \<open>
  C2. The source announces the step after the repair as "Ensure outward orientation
  (positive signed volume)", which is what the claim states for every closed
  2-manifold triangle soup. The code does not achieve it for \<open>twoShellSolid\<close>: the
  coherence check accepts the mesh as authored, so the repair changes nothing; the
  signed volume of the whole mesh is \<open>0\<close>, which is not negative, so no triangle is
  turned; the manifold is built from the triangle list as authored, the second shell
  still wound inward, and the signed volume of that list is \<open>0\<close> and not positive.
  Turning the triangles of the second shell gives the outward orientation, with the
  signed volume \<open>1/3\<close>.
\<close>

theorem two_shells_are_left_at_zero_volume:
  "isCoherentlyOrientedManifold twoShellSolid \<and>
   fst (manifoldize True acceptMesh twoShellSolid) = Inr 0 \<and>
   triVerts (snd (manifoldize True acceptMesh twoShellSolid)) = triVerts twoShellSolid \<and>
   computeSignedVolume (snd (manifoldize True acceptMesh twoShellSolid)) = 0 \<and>
   \<not> 0 < computeSignedVolume (snd (manifoldize True acceptMesh twoShellSolid)) \<and>
   computeSignedVolume
     (twoShellSolid\<lparr>triVerts := take 12 (triVerts twoShellSolid) @
                                  flipAll (drop 12 (triVerts twoShellSolid))\<rparr>) = 1 / 3"
proof -
  have t: "triCount twoShellSolid > 0" by code_simp
  have d: "solidDirty twoShellSolid \<or> solidManifold twoShellSolid = None" by code_simp
  have f: "fixTriangleWindingsByAdjacency twoShellSolid = twoShellSolid"
    using twoShellSolid_coherent by (rule coherent_skips_repair)
  have v: "computeSignedVolume (snd (manifoldize True acceptMesh twoShellSolid)) = 0"
    using manifoldize_volume [OF _ d t, of True acceptMesh] twoShellSolid_volume f by simp
  have tv: "triVerts (snd (manifoldize True acceptMesh twoShellSolid)) = triVerts twoShellSolid"
    using manifoldize_triVerts [OF _ d t, of True acceptMesh] twoShellSolid_volume f by simp
  from twoShellSolid_coherent twoShellSolid_built tv v twoShellSolid_outward_volume
  show ?thesis by simp
qed

end
